theory Spec2Isabelle
  imports Main "HOL-Library.Word" "HOL-Library.AList"
begin

unbundle bit_operations_syntax

section \<open>Types.h: error codes, frame flags, frame header, protocol constants\<close>

text \<open>
  C++ \<^verbatim>\<open>int\<close> status codes are 32-bit two's complement values. They are modelled as
  \<open>32 word\<close>, read as signed through \<open>sint\<close>; \<^verbatim>\<open>static_cast<uint32_t>(status)\<close> and
  \<^verbatim>\<open>static_cast<int>(aux)\<close> keep the bit pattern and are therefore the identity on
  this representation. File descriptors and the results of \<^verbatim>\<open>send\<close>/\<^verbatim>\<open>recv\<close> are only
  compared with zero, never used in arithmetic; they are modelled as \<open>int\<close>.
\<close>

definition RPC_SUCCESS :: "32 word" where "RPC_SUCCESS = 0"
definition RPC_ERR_DISCONNECTED :: "32 word" where "RPC_ERR_DISCONNECTED = - 1"
definition RPC_ERR_TIMEOUT :: "32 word" where "RPC_ERR_TIMEOUT = - 2"
definition RPC_ERR_INVALID_SERVICE :: "32 word" where "RPC_ERR_INVALID_SERVICE = - 3"
definition RPC_ERR_INVALID_METHOD :: "32 word" where "RPC_ERR_INVALID_METHOD = - 4"
definition RPC_ERR_VERSION_MISMATCH :: "32 word" where "RPC_ERR_VERSION_MISMATCH = - 5"
definition RPC_ERR_RING_FULL :: "32 word" where "RPC_ERR_RING_FULL = - 6"
definition RPC_ERR_STOPPED :: "32 word" where "RPC_ERR_STOPPED = - 7"

definition FRAME_REQUEST :: "16 word" where "FRAME_REQUEST = 1"
definition FRAME_RESPONSE :: "16 word" where "FRAME_RESPONSE = 2"
definition FRAME_NOTIFY :: "16 word" where "FRAME_NOTIFY = 4"

record FrameHeader =
  version :: "16 word"
  flags :: "16 word"
  serviceId :: "32 word"
  messageId :: "32 word"
  seq :: "32 word"
  payloadBytes :: "32 word"
  aux :: "32 word"

text \<open>\<^verbatim>\<open>static_assert(sizeof(FrameHeader) == 24)\<close>: the seven fields are laid out without padding.\<close>

definition sizeof_FrameHeader :: nat where
  "sizeof_FrameHeader = 24"

text \<open>\<^verbatim>\<open>FrameHeader h{}\<close>: value initialisation zeroes every field.\<close>

definition FrameHeader_zero :: FrameHeader where
  "FrameHeader_zero = \<lparr>version = 0, flags = 0, serviceId = 0, messageId = 0, seq = 0,
                        payloadBytes = 0, aux = 0\<rparr>"

definition PROTOCOL_VERSION :: "16 word" where "PROTOCOL_VERSION = 1"
definition RING_BUFFER_SIZE :: "32 word" where "RING_BUFFER_SIZE = 256 * 1024"

section \<open>RingBuffer.h\<close>

text \<open>
  \<^verbatim>\<open>memcpy(dst + off, src, n)\<close> into a byte array held as a list, and \<^verbatim>\<open>memcpy(dest, src + off, n)\<close>
  out of one. The source's contract is that both ranges lie inside their buffers (anything
  else is undefined behaviour in C++); the theorems below state that contract as a
  hypothesis wherever the copied bytes matter.
\<close>

definition memcpy :: "8 word list \<Rightarrow> nat \<Rightarrow> 8 word list \<Rightarrow> nat \<Rightarrow> 8 word list" where
  "memcpy dst off src n = take off dst @ take n src @ drop (off + n) dst"

definition memcpy_out :: "8 word list \<Rightarrow> nat \<Rightarrow> nat \<Rightarrow> 8 word list" where
  "memcpy_out src off n = take n (drop off src)"

text \<open>The array after the one or two copies of a write of \<open>L\<close> bytes at offset \<open>off\<close>.\<close>

definition ring_put :: "8 word list \<Rightarrow> nat \<Rightarrow> 8 word list \<Rightarrow> nat \<Rightarrow> 8 word list" where
  "ring_put d off src L =
     (let N = length d
      in if L \<le> N - off then memcpy d off src L
         else memcpy (memcpy d off src (N - off)) 0 (drop (N - off) src) (L - (N - off)))"

text \<open>The \<open>L\<close> bytes that the one or two copies of \<open>peek\<close> and \<open>read\<close> take from offset \<open>off\<close>.\<close>

definition ring_get :: "8 word list \<Rightarrow> nat \<Rightarrow> nat \<Rightarrow> 8 word list" where
  "ring_get d off L =
     (let N = length d
      in if L \<le> N - off then memcpy_out d off L
         else memcpy_out d off (N - off) @ memcpy_out d 0 (L - (N - off)))"

text \<open>
  \<^verbatim>\<open>RingBuffer<Size>\<close>: the control block's \<open>head\<close> and \<open>tail\<close> and the array \<^verbatim>\<open>data_[Size]\<close>.
  The template parameter \<open>Size\<close> is the first argument of every operation that uses it.
  The atomics are read and written by one thread at a time in this model.
\<close>

record RingBuffer =
  head :: "32 word"
  tail :: "32 word"
  data :: "8 word list"

text \<open>\<^verbatim>\<open>static_assert(Size > 0 && (Size & (Size - 1)) == 0)\<close>\<close>

definition valid_size :: "32 word \<Rightarrow> bool" where
  "valid_size Size \<longleftrightarrow> Size > 0 \<and> Size AND (Size - 1) = 0"

definition reset :: "RingBuffer \<Rightarrow> RingBuffer" where
  "reset rb = rb\<lparr>head := 0, tail := 0\<rparr>"

definition writeAvailable :: "32 word \<Rightarrow> RingBuffer \<Rightarrow> 32 word" where
  "writeAvailable Size rb = Size - (head rb - tail rb)"

text \<open>\<^verbatim>\<open>RingBuffer::write\<close>; the name \<open>write\<close> is reserved in Isabelle.\<close>

definition write_rb :: "32 word \<Rightarrow> RingBuffer \<Rightarrow> 8 word list \<Rightarrow> 32 word \<Rightarrow> bool \<times> RingBuffer" where
  "write_rb Size rb src len =
     (if Size - (head rb - tail rb) < len then (False, rb)
      else
        let offset = head rb AND (Size - 1);
            firstChunk = Size - offset;
            data' = (if firstChunk \<ge> len
                     then memcpy (data rb) (unat offset) src (unat len)
                     else memcpy (memcpy (data rb) (unat offset) src (unat firstChunk))
                            0 (drop (unat firstChunk) src) (unat (len - firstChunk)))
        in (True, rb\<lparr>data := data', head := head rb + len\<rparr>))"

definition readAvailable :: "RingBuffer \<Rightarrow> 32 word" where
  "readAvailable rb = head rb - tail rb"

text \<open>
  \<open>peek\<close> and \<open>read\<close> return \<open>None\<close> for \<^verbatim>\<open>false\<close> (\<open>dest\<close> untouched) and \<open>Some\<close> of the
  \<open>len\<close> bytes copied to \<open>dest\<close> for \<^verbatim>\<open>true\<close>.
\<close>

definition peek :: "32 word \<Rightarrow> RingBuffer \<Rightarrow> 32 word \<Rightarrow> 8 word list option" where
  "peek Size rb len =
     (if head rb - tail rb < len then None
      else
        let offset = tail rb AND (Size - 1);
            firstChunk = Size - offset
        in Some (if firstChunk \<ge> len
                 then memcpy_out (data rb) (unat offset) (unat len)
                 else memcpy_out (data rb) (unat offset) (unat firstChunk)
                      @ memcpy_out (data rb) 0 (unat (len - firstChunk))))"

definition read :: "32 word \<Rightarrow> RingBuffer \<Rightarrow> 32 word \<Rightarrow> 8 word list option \<times> RingBuffer" where
  "read Size rb len =
     (if head rb - tail rb < len then (None, rb)
      else
        let offset = tail rb AND (Size - 1);
            firstChunk = Size - offset;
            dest = (if firstChunk \<ge> len
                    then memcpy_out (data rb) (unat offset) (unat len)
                    else memcpy_out (data rb) (unat offset) (unat firstChunk)
                         @ memcpy_out (data rb) 0 (unat (len - firstChunk)))
        in (Some dest, rb\<lparr>tail := tail rb + len\<rparr>))"

definition skip :: "RingBuffer \<Rightarrow> 32 word \<Rightarrow> bool \<times> RingBuffer" where
  "skip rb len =
     (if head rb - tail rb < len then (False, rb)
      else (True, rb\<lparr>tail := tail rb + len\<rparr>))"

definition capacity :: "32 word \<Rightarrow> 32 word" where
  "capacity Size = Size"

text \<open>
  The representation invariant of a ring: a legal template argument, an array of \<open>Size\<close>
  bytes, and at most \<open>Size\<close> bytes in flight.
\<close>

definition ring_ok :: "32 word \<Rightarrow> RingBuffer \<Rightarrow> bool" where
  "ring_ok Size rb \<longleftrightarrow>
     valid_size Size \<and> length (data rb) = unat Size \<and> head rb - tail rb \<le> Size"

text \<open>
  A freshly constructed ring (\<open>head{0}\<close>, \<open>tail{0}\<close>, array contents arbitrary) and the
  operations a producer and a consumer can apply to it, run one after the other.
\<close>

definition initial :: "8 word list \<Rightarrow> RingBuffer" where
  "initial d = \<lparr>head = 0, tail = 0, data = d\<rparr>"

datatype ring_op =
  Reset | Write "8 word list" "32 word" | Read "32 word" | Peek "32 word" | Skip "32 word"

fun apply_op :: "32 word \<Rightarrow> RingBuffer \<Rightarrow> ring_op \<Rightarrow> RingBuffer" where
  "apply_op Size rb Reset = reset rb"
| "apply_op Size rb (Write src len) = snd (write_rb Size rb src len)"
| "apply_op Size rb (Read len) = snd (read Size rb len)"
| "apply_op Size rb (Peek len) = rb"
| "apply_op Size rb (Skip len) = snd (skip rb len)"

definition balanced :: "32 word \<Rightarrow> RingBuffer \<Rightarrow> bool" where
  "balanced Size rb \<longleftrightarrow>
     unat (readAvailable rb) + unat (writeAvailable Size rb) = unat (capacity Size)"

section \<open>FrameCodec.cpp\<close>

text \<open>
  \<^verbatim>\<open>htole16\<close>/\<^verbatim>\<open>htole32\<close> followed by \<^verbatim>\<open>memcpy\<close> of the struct puts each field into the
  buffer least significant byte first, whatever the host's byte order; \<open>put_le16\<close> and
  \<open>put_le32\<close> are those bytes, \<open>get_le16\<close> and \<open>get_le32\<close> read them back at an offset.
  The source reads the 24 bytes without looking at the buffer's real extent; a byte past
  the end of the list (undefined behaviour in C++) reads as 0 here.
\<close>

definition put_le16 :: "16 word \<Rightarrow> 8 word list" where
  "put_le16 w = [ucast w, ucast (drop_bit 8 w)]"

definition put_le32 :: "32 word \<Rightarrow> 8 word list" where
  "put_le32 w = [ucast w, ucast (drop_bit 8 w), ucast (drop_bit 16 w), ucast (drop_bit 24 w)]"

definition byte_at :: "8 word list \<Rightarrow> nat \<Rightarrow> 8 word" where
  "byte_at bs i = (if i < length bs then bs ! i else 0)"

definition get_le16 :: "8 word list \<Rightarrow> nat \<Rightarrow> 16 word" where
  "get_le16 bs i = ucast (byte_at bs i) OR push_bit 8 (ucast (byte_at bs (i + 1)))"

definition get_le32 :: "8 word list \<Rightarrow> nat \<Rightarrow> 32 word" where
  "get_le32 bs i =
     ucast (byte_at bs i) OR push_bit 8 (ucast (byte_at bs (i + 1))) OR
     push_bit 16 (ucast (byte_at bs (i + 2))) OR push_bit 24 (ucast (byte_at bs (i + 3)))"

definition encodeFrameHeader :: "FrameHeader \<Rightarrow> 8 word list" where
  "encodeFrameHeader header =
     put_le16 (version header) @ put_le16 (flags header) @ put_le32 (serviceId header) @
     put_le32 (messageId header) @ put_le32 (seq header) @ put_le32 (payloadBytes header) @
     put_le32 (aux header)"

text \<open>
  \<open>out\<close> is the pointer argument: \<open>None\<close> for \<^verbatim>\<open>nullptr\<close>, \<open>Some h\<close> for a header object
  currently holding \<open>h\<close>. The result is the returned flag and the object afterwards.
\<close>

definition decodeFrameHeader ::
  "8 word list \<Rightarrow> 32 word \<Rightarrow> FrameHeader option \<Rightarrow> bool \<times> FrameHeader option" where
  "decodeFrameHeader bytes len out =
     (if unat len < sizeof_FrameHeader \<or> out = None then (False, out)
      else (True, Some \<lparr>version = get_le16 bytes 0, flags = get_le16 bytes 2,
                         serviceId = get_le32 bytes 4, messageId = get_le32 bytes 8,
                         seq = get_le32 bytes 12, payloadBytes = get_le32 bytes 16,
                         aux = get_le32 bytes 20\<rparr>))"

section \<open>Platform calls and shared memory\<close>

text \<open>
  The operating system is outside the program. Each platform call's result is an argument
  of the function that makes the call, and the calls a function makes are returned as a
  list of events, in program order.
\<close>

datatype event =
    Close int
  | Shutdown int
  | Send int "8 word list"
  | SendFd int "16 word" int
  | Munmap
  | Join
  | SpawnThread
  | NotifyHandlerCall "32 word" "8 word list"

text \<open>\<^verbatim>\<open>sendSignalByte\<close> sends the single byte 1.\<close>

definition signal_event :: "int \<Rightarrow> event" where
  "signal_event socketFd = Send socketFd [1]"

record SharedRegion =
  clientToServer :: RingBuffer
  serverToClient :: RingBuffer

text \<open>
  \<^verbatim>\<open>ring.peek(&wire, sizeof(wire))\<close> copies 24 ring bytes over a \<open>FrameHeader\<close> object. On the
  little-endian hosts the program targets, the object's fields are then the little-endian
  values of those bytes.
\<close>

definition wire_of_bytes :: "8 word list \<Rightarrow> FrameHeader" where
  "wire_of_bytes bytes =
     \<lparr>version = get_le16 bytes 0, flags = get_le16 bytes 2,
      serviceId = get_le32 bytes 4, messageId = get_le32 bytes 8,
      seq = get_le32 bytes 12, payloadBytes = get_le32 bytes 16,
      aux = get_le32 bytes 20\<rparr>"

text \<open>
  The first half of a drain iteration, shared by both receivers: peek a header, decode
  it, check that header and payload are both present, skip the header, read the payload.
  \<open>None\<close> is the \<^verbatim>\<open>break\<close> of the inner loop.
\<close>

definition take_frame :: "RingBuffer \<Rightarrow> (FrameHeader \<times> 8 word list \<times> RingBuffer) option" where
  "take_frame rb =
     (case peek RING_BUFFER_SIZE rb (of_nat sizeof_FrameHeader) of
        None \<Rightarrow> None
      | Some bytes \<Rightarrow>
          let wire = wire_of_bytes bytes;
              raw = encodeFrameHeader wire
          in (case decodeFrameHeader raw (of_nat (length raw)) (Some FrameHeader_zero) of
                (True, Some header) \<Rightarrow>
                  if unat (readAvailable rb) < sizeof_FrameHeader + unat (payloadBytes header)
                  then None
                  else
                    let rb1 = snd (skip rb (of_nat sizeof_FrameHeader));
                        zeros = replicate (unat (payloadBytes header)) 0
                    in if payloadBytes header > 0
                       then (case read RING_BUFFER_SIZE rb1 (payloadBytes header) of
                               (Some payload, rb2) \<Rightarrow> Some (header, payload, rb2)
                             | (None, rb2) \<Rightarrow> Some (header, zeros, rb2))
                       else Some (header, zeros, rb1)
              | _ \<Rightarrow> None))"

text \<open>
  Writing one frame, as all four producers do it:
  \<^verbatim>\<open>!ring.write(encoded.data(), encoded.size()) || !ring.write(payload.data(), header.payloadBytes)\<close>.
  The result is \<open>False\<close> when that condition holds (the caller then reports the failure),
  together with the ring as the two calls left it.
\<close>

definition write_frame :: "RingBuffer \<Rightarrow> FrameHeader \<Rightarrow> 8 word list \<Rightarrow> bool \<times> RingBuffer" where
  "write_frame rb header payload =
     (let encoded = encodeFrameHeader header
      in case write_rb RING_BUFFER_SIZE rb encoded (of_nat (length encoded)) of
           (False, rb1) \<Rightarrow> (False, rb1)
         | (True, rb1) \<Rightarrow> write_rb RING_BUFFER_SIZE rb1 payload (payloadBytes header))"

section \<open>Service.cpp\<close>

type_synonym RequestHandler = "32 word \<Rightarrow> 8 word list \<Rightarrow> 32 word \<times> 8 word list"

record Connection =
  socketFd :: int
  shmFd :: int
  region :: "SharedRegion option"

text \<open>\<open>m_running\<close> of \<open>Service\<close> is named \<open>m_serving\<close>: \<open>Client\<close> has a field of the same name.\<close>

record Service =
  m_listenFd :: int
  m_serving :: bool
  m_connections :: "Connection list"
  m_handler :: "RequestHandler option"

text \<open>The header \<^verbatim>\<open>Service::notify\<close> and \<^verbatim>\<open>Client::notify\<close> build (\<open>seq\<close> and \<open>aux\<close> stay 0).\<close>

definition notify_header :: "32 word \<Rightarrow> 32 word \<Rightarrow> 8 word list \<Rightarrow> FrameHeader" where
  "notify_header sid notifyId payload =
     FrameHeader_zero\<lparr>version := PROTOCOL_VERSION, flags := FRAME_NOTIFY,
        serviceId := sid, messageId := notifyId,
        payloadBytes := of_nat (length payload)\<rparr>"

text \<open>
  \<^verbatim>\<open>Service::notify\<close>. \<open>sendSignalByte\<close> gives the result of the platform call for a socket.
  The loop over \<open>m_connections\<close> returns the status, the connections with their rings as
  the call left them, and the events.
\<close>

fun notify_loop ::
  "(int \<Rightarrow> int) \<Rightarrow> FrameHeader \<Rightarrow> 8 word list \<Rightarrow> Connection list \<Rightarrow>
   32 word \<times> Connection list \<times> event list" where
  "notify_loop sendSignalByte header payload [] = (RPC_SUCCESS, [], [])"
| "notify_loop sendSignalByte header payload (c # cs) =
     (case region c of
        None \<Rightarrow>
          (case notify_loop sendSignalByte header payload cs of
             (st, cs', ev) \<Rightarrow> (st, c # cs', ev))
      | Some r \<Rightarrow>
          (case write_frame (serverToClient r) header payload of
             (False, rb) \<Rightarrow>
               (RPC_ERR_RING_FULL, c\<lparr>region := Some (r\<lparr>serverToClient := rb\<rparr>)\<rparr> # cs, [])
           | (True, rb) \<Rightarrow>
               let c' = c\<lparr>region := Some (r\<lparr>serverToClient := rb\<rparr>)\<rparr>
               in if sendSignalByte (socketFd c) \<le> 0
                  then (RPC_ERR_DISCONNECTED, c' # cs, [signal_event (socketFd c)])
                  else (case notify_loop sendSignalByte header payload cs of
                          (st, cs', ev) \<Rightarrow> (st, c' # cs', signal_event (socketFd c) # ev))))"

text \<open>
  For stating what \<open>notify_loop\<close> has done to a connection: \<open>accepts\<close> says that the
  connection takes the frame and the signal (or is skipped for its null region), \<open>deliver\<close>
  is the connection after the frame write, \<open>signals\<close> the signal events of the connections
  that were not skipped.
\<close>

definition accepts :: "(int \<Rightarrow> int) \<Rightarrow> FrameHeader \<Rightarrow> 8 word list \<Rightarrow> Connection \<Rightarrow> bool" where
  "accepts sendSignalByte header payload c =
     (case region c of
        None \<Rightarrow> True
      | Some r \<Rightarrow> fst (write_frame (serverToClient r) header payload) \<and>
                  sendSignalByte (socketFd c) > 0)"

definition deliver :: "FrameHeader \<Rightarrow> 8 word list \<Rightarrow> Connection \<Rightarrow> Connection" where
  "deliver header payload c =
     (case region c of
        None \<Rightarrow> c
      | Some r \<Rightarrow> c\<lparr>region := Some (r\<lparr>serverToClient :=
                         snd (write_frame (serverToClient r) header payload)\<rparr>)\<rparr>)"

definition signals :: "Connection list \<Rightarrow> event list" where
  "signals cs = map (\<lambda>c. signal_event (socketFd c)) (filter (\<lambda>c. region c \<noteq> None) cs)"

definition Service_notify ::
  "(int \<Rightarrow> int) \<Rightarrow> Service \<Rightarrow> 32 word \<Rightarrow> 32 word \<Rightarrow> 8 word list \<Rightarrow>
   32 word \<times> Service \<times> event list" where
  "Service_notify sendSignalByte svc sid notifyId payload =
     (let header = notify_header sid notifyId payload
      in case notify_loop sendSignalByte header payload (m_connections svc) of
           (st, cs, ev) \<Rightarrow> (st, svc\<lparr>m_connections := cs\<rparr>, ev))"

text \<open>
  \<^verbatim>\<open>recvFdWithVersion\<close>: \<open>msg_n\<close> is the result of \<^verbatim>\<open>recvmsg\<close>, \<open>msg_version\<close> the two bytes it
  stored, \<open>msg_fd\<close> the descriptor of an SCM_RIGHTS control message when there is one.
  The result is the return value and the contents of \<open>*version\<close> and \<open>*receivedFd\<close>.
\<close>

record HandshakeMsg =
  msg_n :: int
  msg_version :: "16 word"
  msg_fd :: "int option"

definition recvFdWithVersion :: "HandshakeMsg \<Rightarrow> 16 word \<Rightarrow> int \<Rightarrow> int \<times> 16 word \<times> int" where
  "recvFdWithVersion msg version0 receivedFd0 =
     (if msg_n msg \<le> 0 then (msg_n msg, version0, receivedFd0)
      else (msg_n msg, msg_version msg, (case msg_fd msg of None \<Rightarrow> - 1 | Some fd \<Rightarrow> fd)))"

text \<open>
  One iteration of \<^verbatim>\<open>Service::acceptLoop\<close>: \<open>clientFd\<close> is the result of \<^verbatim>\<open>accept4\<close>, \<open>msg\<close>
  what the new socket delivers, \<open>mem\<close> the result of \<^verbatim>\<open>mmap\<close> (\<open>None\<close> for \<^verbatim>\<open>MAP_FAILED\<close>).
\<close>

definition acceptLoop_iteration ::
  "Service \<Rightarrow> int \<Rightarrow> HandshakeMsg \<Rightarrow> SharedRegion option \<Rightarrow> Service \<times> event list" where
  "acceptLoop_iteration svc clientFd msg mem =
     (if clientFd < 0 then (svc, [])
      else case recvFdWithVersion msg 0 (- 1) of
        (n, ver, shm) \<Rightarrow>
          if n \<le> 0 \<or> shm < 0 then (svc, [Close clientFd])
          else
            let ack = (if ver = PROTOCOL_VERSION then 1 else 0 :: 8 word)
            in if ack = 0 then (svc, [Send clientFd [ack], Close shm, Close clientFd])
               else (case mem of
                       None \<Rightarrow> (svc, [Send clientFd [ack], Close shm, Close clientFd])
                     | Some r \<Rightarrow>
                         (svc\<lparr>m_connections := m_connections svc @
                                [\<lparr>socketFd = clientFd, shmFd = shm, region = Some r\<rparr>]\<rparr>,
                          [Send clientFd [ack], SpawnThread])))"

text \<open>
  The REQUEST branch of \<^verbatim>\<open>Service::connectionLoop\<close>: the handler's status and payload and
  the RESPONSE header built from them.
\<close>

definition build_response ::
  "RequestHandler option \<Rightarrow> FrameHeader \<Rightarrow> 8 word list \<Rightarrow> FrameHeader \<times> 8 word list" where
  "build_response handler header payload =
     (case (case handler of
              None \<Rightarrow> (RPC_ERR_INVALID_METHOD, [])
            | Some h \<Rightarrow> h (messageId header) payload) of
        (status, responsePayload) \<Rightarrow>
          (FrameHeader_zero\<lparr>version := PROTOCOL_VERSION, flags := FRAME_RESPONSE,
              serviceId := serviceId header, messageId := messageId header,
              seq := seq header, payloadBytes := of_nat (length responsePayload),
              aux := status\<rparr>,
           responsePayload))"

text \<open>
  One iteration of the inner loop of \<^verbatim>\<open>Service::connectionLoop\<close> on a connection's region.
  \<open>None\<close> is \<^verbatim>\<open>break\<close>; a failed response write is the \<^verbatim>\<open>continue\<close> that sends no signal.
\<close>

definition connectionLoop_step ::
  "RequestHandler option \<Rightarrow> int \<Rightarrow> SharedRegion \<Rightarrow> (SharedRegion \<times> event list) option" where
  "connectionLoop_step handler sock r =
     (case take_frame (clientToServer r) of
        None \<Rightarrow> None
      | Some (header, payload, rb) \<Rightarrow>
          let r1 = r\<lparr>clientToServer := rb\<rparr>
          in if flags header AND FRAME_REQUEST \<noteq> 0
             then (case build_response handler header payload of
                     (response, responsePayload) \<Rightarrow>
                       (case write_frame (serverToClient r1) response responsePayload of
                          (False, rb') \<Rightarrow> Some (r1\<lparr>serverToClient := rb'\<rparr>, [])
                        | (True, rb') \<Rightarrow> Some (r1\<lparr>serverToClient := rb'\<rparr>, [signal_event sock])))
             else Some (r1, []))"

section \<open>Client.cpp\<close>

text \<open>
  \<open>PendingCall\<close> objects are shared (\<^verbatim>\<open>std::shared_ptr\<close>) between the pending table and the
  caller blocked in \<open>call\<close>. They live in a store, the list \<open>heap\<close>, and are named by
  their index; \<^verbatim>\<open>std::make_shared\<close> appends a new object. The field \<open>done\<close> is named
  \<open>done_flag\<close> (\<open>done\<close> is reserved); the condition variable is the scheduling between
  the steps below and has no field. \<open>m_notifyHandler\<close> says whether a handler is installed;
  calling it is the event \<open>NotifyHandlerCall\<close>.
\<close>

record PendingCall =
  done_flag :: bool
  status :: "32 word"
  response :: "8 word list"

record Client =
  m_socketFd :: int
  m_shmFd :: int
  m_region :: "SharedRegion option"
  m_running :: bool
  m_nextSeq :: "32 word"
  m_pending :: "(32 word \<times> nat) list"
  m_notifyHandler :: bool
  heap :: "PendingCall list"

text \<open>The loop \<^verbatim>\<open>for (auto& [_, pending] : m_pending)\<close> that fails every pending call.\<close>

definition fail_all :: "32 word \<Rightarrow> (32 word \<times> nat) list \<Rightarrow> PendingCall list \<Rightarrow> PendingCall list" where
  "fail_all st table h =
     foldl (\<lambda>h' (k, p). h'[p := (h' ! p)\<lparr>status := st, done_flag := True\<rparr>]) h table"

text \<open>The code after the outer loop of \<^verbatim>\<open>Client::receiverLoop\<close>.\<close>

definition receiverLoop_exit :: "Client \<Rightarrow> Client" where
  "receiverLoop_exit c = c\<lparr>heap := fail_all RPC_ERR_DISCONNECTED (m_pending c) (heap c)\<rparr>"

text \<open>The unmap and close sequence that ends both paths of \<^verbatim>\<open>Client::disconnect\<close>.\<close>

definition release :: "Client \<Rightarrow> Client \<times> event list" where
  "release c =
     (c\<lparr>m_region := None,
        m_shmFd := (if m_shmFd c \<ge> 0 then - 1 else m_shmFd c),
        m_socketFd := (if m_socketFd c \<ge> 0 then - 1 else m_socketFd c)\<rparr>,
      (if m_region c \<noteq> None then [Munmap] else []) @
      (if m_shmFd c \<ge> 0 then [Close (m_shmFd c)] else []) @
      (if m_socketFd c \<ge> 0 then [Close (m_socketFd c)] else []))"

text \<open>
  \<^verbatim>\<open>Client::disconnect\<close>. When the join returns, the receiver thread has run its exit code.
\<close>

definition Client_disconnect :: "Client \<Rightarrow> Client \<times> event list" where
  "Client_disconnect c =
     (if \<not> m_running c then release c
      else
        let c1 = c\<lparr>m_running := False\<rparr>;
            ev1 = (if m_socketFd c1 \<ge> 0 then [Shutdown (m_socketFd c1)] else []);
            c2 = receiverLoop_exit c1;
            c3 = c2\<lparr>heap := fail_all RPC_ERR_STOPPED (m_pending c2) (heap c2), m_pending := []\<rparr>
        in case release c3 of (c4, ev) \<Rightarrow> (c4, ev1 @ [Join] @ ev))"

text \<open>
  The retry loop of \<^verbatim>\<open>Client::connect\<close>: \<open>connectClientSocket i\<close> is the result of attempt
  \<open>i\<close>, \<open>k\<close> the attempts left, \<open>fd\<close> the current value of \<open>m_socketFd\<close>.
\<close>

fun connect_attempts :: "(nat \<Rightarrow> int) \<Rightarrow> nat \<Rightarrow> nat \<Rightarrow> int \<Rightarrow> int" where
  "connect_attempts connectClientSocket i 0 fd = fd"
| "connect_attempts connectClientSocket i (Suc k) fd =
     (let fd' = connectClientSocket i
      in if fd' \<ge> 0 then fd' else connect_attempts connectClientSocket (Suc i) k fd')"

text \<open>
  \<^verbatim>\<open>Client::connect\<close>. \<open>createSharedMemory\<close>, \<open>mmap\<close> (\<open>None\<close> for \<^verbatim>\<open>MAP_FAILED\<close>, else the
  mapped region's contents), \<open>sendFdWithVersion\<close> and \<open>recv\<close> (the return value and the
  byte received) are the results of the platform calls.
\<close>

definition Client_connect ::
  "Client \<Rightarrow> 16 word \<Rightarrow> int \<Rightarrow> (nat \<Rightarrow> int) \<Rightarrow> int \<Rightarrow> SharedRegion option \<Rightarrow> int \<Rightarrow>
   int \<times> 8 word \<Rightarrow> bool \<times> Client \<times> event list" where
  "Client_connect c ver maxAttempts connectClientSocket createSharedMemory mmap
       sendFdWithVersion recv =
     (let c1 = c\<lparr>m_socketFd :=
                 connect_attempts connectClientSocket 0 (nat maxAttempts) (m_socketFd c)\<rparr>
      in if m_socketFd c1 < 0 then (False, c1, [])
         else
           let c2 = c1\<lparr>m_shmFd := createSharedMemory\<rparr>
           in if m_shmFd c2 < 0
              then (False, c2\<lparr>m_socketFd := - 1\<rparr>, [Close (m_socketFd c2)])
              else (case mmap of
                 None \<Rightarrow>
                   (False, c2\<lparr>m_shmFd := - 1, m_socketFd := - 1\<rparr>,
                    [Close (m_shmFd c2), Close (m_socketFd c2)])
               | Some mem \<Rightarrow>
                   let c3 = c2\<lparr>m_region :=
                              Some \<lparr>clientToServer = reset (clientToServer mem),
                                    serverToClient = reset (serverToClient mem)\<rparr>\<rparr>;
                       sent = SendFd (m_socketFd c3) ver (m_shmFd c3)
                   in if sendFdWithVersion \<le> 0
                      then (case Client_disconnect c3 of (c4, ev) \<Rightarrow> (False, c4, sent # ev))
                      else
                        let ack = (if fst recv > 0 then snd recv else 0)
                        in if fst recv \<le> 0 \<or> ack = 0
                           then (case Client_disconnect c3 of
                                   (c4, ev) \<Rightarrow> (False, c4, sent # ev))
                           else (True, c3\<lparr>m_running := True\<rparr>, [sent, SpawnThread])))"

text \<open>The REQUEST header \<^verbatim>\<open>Client::call\<close> builds for sequence number \<open>sq\<close> (\<open>aux\<close> stays 0).\<close>

definition request_header :: "32 word \<Rightarrow> 32 word \<Rightarrow> 32 word \<Rightarrow> 8 word list \<Rightarrow> FrameHeader" where
  "request_header sq sid methodId request =
     FrameHeader_zero\<lparr>version := PROTOCOL_VERSION, flags := FRAME_REQUEST,
        serviceId := sid, messageId := methodId, seq := sq,
        payloadBytes := of_nat (length request)\<rparr>"

text \<open>
  \<^verbatim>\<open>Client::call\<close> blocks in \<^verbatim>\<open>wait_for\<close>. \<open>call_begin\<close> is the code up to the wait:
  \<open>Inl status\<close> is an early return, \<open>Inr (seq, p)\<close> says that the caller now waits on the
  \<open>PendingCall\<close> at \<open>p\<close>, registered under \<open>seq\<close>. \<open>sendSignalByte\<close> is the result of the
  platform call.
\<close>

definition call_begin ::
  "Client \<Rightarrow> 32 word \<Rightarrow> 32 word \<Rightarrow> 8 word list \<Rightarrow> int \<Rightarrow>
   (32 word + 32 word \<times> nat) \<times> Client \<times> event list" where
  "call_begin c sid methodId request sendSignalByte =
     (case m_region c of
        None \<Rightarrow> (Inl RPC_ERR_DISCONNECTED, c, [])
      | Some r \<Rightarrow>
          if \<not> m_running c then (Inl RPC_ERR_DISCONNECTED, c, [])
          else
            let sq = m_nextSeq c;
                c1 = c\<lparr>m_nextSeq := m_nextSeq c + 1\<rparr>;
                header = request_header sq sid methodId request
            in case write_frame (clientToServer r) header request of
                 (False, rb) \<Rightarrow>
                   (Inl RPC_ERR_RING_FULL, c1\<lparr>m_region := Some (r\<lparr>clientToServer := rb\<rparr>)\<rparr>, [])
               | (True, rb) \<Rightarrow>
                   let p = length (heap c1);
                       pending = \<lparr>done_flag = False, status = RPC_SUCCESS, response = []\<rparr>;
                       c2 = c1\<lparr>m_region := Some (r\<lparr>clientToServer := rb\<rparr>),
                               heap := heap c1 @ [pending],
                               m_pending := AList.update sq p (m_pending c1)\<rparr>
                   in if sendSignalByte \<le> 0
                      then (Inl RPC_ERR_DISCONNECTED, c2, [signal_event (m_socketFd c2)])
                      else (Inr (sq, p), c2, [signal_event (m_socketFd c2)]))"

text \<open>
  \<open>call_finish\<close> is the code after \<^verbatim>\<open>wait_for\<close> has returned: it returned \<^verbatim>\<open>false\<close> exactly
  when the timeout passed with \<open>done\<close> still unset. \<open>resp\<close> is the \<open>response\<close> pointer:
  \<open>None\<close> for \<^verbatim>\<open>nullptr\<close>, \<open>Some v\<close> for a vector holding \<open>v\<close>. The result is the returned
  status, the vector afterwards and the client.
\<close>

definition call_finish ::
  "Client \<Rightarrow> 32 word \<Rightarrow> nat \<Rightarrow> 8 word list option \<Rightarrow> 32 word \<times> 8 word list option \<times> Client" where
  "call_finish c sq p resp =
     (let pending = heap c ! p
      in if \<not> done_flag pending
         then (RPC_ERR_TIMEOUT, resp, c\<lparr>m_pending := AList.delete sq (m_pending c)\<rparr>)
         else
           let st = status pending;
               resp' = (if st = RPC_SUCCESS \<and> resp \<noteq> None then Some (response pending)
                        else resp)
           in (st, resp', c\<lparr>m_pending := AList.delete sq (m_pending c)\<rparr>))"

text \<open>\<^verbatim>\<open>Client::notify\<close>.\<close>

definition Client_notify ::
  "Client \<Rightarrow> 32 word \<Rightarrow> 32 word \<Rightarrow> 8 word list \<Rightarrow> int \<Rightarrow> 32 word \<times> Client \<times> event list" where
  "Client_notify c sid notifyId payload sendSignalByte =
     (case m_region c of
        None \<Rightarrow> (RPC_ERR_DISCONNECTED, c, [])
      | Some r \<Rightarrow>
          if \<not> m_running c then (RPC_ERR_DISCONNECTED, c, [])
          else
            let header = notify_header sid notifyId payload
            in case write_frame (clientToServer r) header payload of
                 (False, rb) \<Rightarrow>
                   (RPC_ERR_RING_FULL, c\<lparr>m_region := Some (r\<lparr>clientToServer := rb\<rparr>)\<rparr>, [])
               | (True, rb) \<Rightarrow>
                   ((if sendSignalByte > 0 then RPC_SUCCESS else RPC_ERR_DISCONNECTED),
                    c\<lparr>m_region := Some (r\<lparr>clientToServer := rb\<rparr>)\<rparr>,
                    [signal_event (m_socketFd c)]))"

text \<open>
  What \<^verbatim>\<open>Client::receiverLoop\<close> does with one frame it has taken from the ring: a RESPONSE
  completes the pending call registered under its \<open>seq\<close>, a NOTIFY goes to the handler
  when one is installed.
\<close>

definition receiver_dispatch :: "Client \<Rightarrow> FrameHeader \<Rightarrow> 8 word list \<Rightarrow> Client \<times> event list" where
  "receiver_dispatch c header payload =
     (if flags header AND FRAME_RESPONSE \<noteq> 0
      then (case map_of (m_pending c) (seq header) of
              None \<Rightarrow> (c, [])
            | Some p \<Rightarrow>
                (c\<lparr>heap := (heap c)[p := (heap c ! p)\<lparr>status := aux header,
                                           response := payload, done_flag := True\<rparr>]\<rparr>, []))
      else if flags header AND FRAME_NOTIFY \<noteq> 0
      then (c, if m_notifyHandler c then [NotifyHandlerCall (messageId header) payload] else [])
      else (c, []))"

text \<open>One iteration of the inner loop of \<^verbatim>\<open>Client::receiverLoop\<close>; \<open>None\<close> is \<^verbatim>\<open>break\<close>.\<close>

definition receiverLoop_step :: "Client \<Rightarrow> (Client \<times> event list) option" where
  "receiverLoop_step c =
     (case m_region c of
        None \<Rightarrow> None
      | Some r \<Rightarrow>
          (case take_frame (serverToClient r) of
             None \<Rightarrow> None
           | Some (header, payload, rb) \<Rightarrow>
               Some (receiver_dispatch (c\<lparr>m_region := Some (r\<lparr>serverToClient := rb\<rparr>)\<rparr>)
                       header payload)))"

section \<open>The receiver loop as a whole, and the other threads of a client\<close>

text \<open>
  The frames a ring holds, oldest first: the drain step of the receivers takes them out
  one after the other and then finds the ring empty.
\<close>

fun queued :: "RingBuffer \<Rightarrow> (FrameHeader \<times> 8 word list) list \<Rightarrow> bool" where
  "queued rb [] \<longleftrightarrow> head rb = tail rb"
| "queued rb (f # fs) \<longleftrightarrow>
     (case take_frame rb of
        None \<Rightarrow> False
      | Some (header, payload, rb') \<Rightarrow> header = fst f \<and> payload = snd f \<and> queued rb' fs)"

text \<open>
  The inner loop \<^verbatim>\<open>while (true)\<close> of \<^verbatim>\<open>Client::receiverLoop\<close>: its iterations up to the
  first \<^verbatim>\<open>break\<close>, with the notification handler calls they make, in order. An
  iteration that does not break has moved \<open>tail\<close> forward by at least 24 bytes, so the
  loop ends.
\<close>

function receiver_drain :: "Client \<Rightarrow> Client \<times> event list" where
  "receiver_drain c =
     (case receiverLoop_step c of
        None \<Rightarrow> (c, [])
      | Some (c', ev) \<Rightarrow> (case receiver_drain c' of (c'', ev') \<Rightarrow> (c'', ev @ ev')))"
  by pat_completeness auto
termination
proof (relation "measure (\<lambda>c. case m_region c of
                                 None \<Rightarrow> 0
                               | Some r \<Rightarrow> unat (readAvailable (serverToClient r)))")
  show "wf (measure (\<lambda>c. case m_region c of
                            None \<Rightarrow> 0
                          | Some r \<Rightarrow> unat (readAvailable (serverToClient r))))"
    by simp
next
  fix c :: Client and x2 :: "Client \<times> event list" and c' :: Client and ev :: "event list"
  assume st: "receiverLoop_step c = Some x2" and x2: "(c', ev) = x2"
  from st obtain r where reg: "m_region c = Some r"
    by (cases "m_region c") (simp_all add: receiverLoop_step_def)
  from st reg obtain header payload rb where
    tf: "take_frame (serverToClient r) = Some (header, payload, rb)"
    by (cases "take_frame (serverToClient r)") (auto simp: receiverLoop_step_def)
  have keep: "m_region (fst (receiver_dispatch d header payload)) = m_region d" for d
    by (simp add: receiver_dispatch_def split: option.splits)
  have x: "x2 = receiver_dispatch (c\<lparr>m_region := Some (r\<lparr>serverToClient := rb\<rparr>)\<rparr>) header payload"
    using st reg tf by (simp add: receiverLoop_step_def)
  have "c' = fst x2" by (simp add: x2 [symmetric])
  then have reg': "m_region c' = Some (r\<lparr>serverToClient := rb\<rparr>)"
    by (simp add: x keep)
  define s where "s = serverToClient r"
  have ge: "\<not> head s - tail s < 24"
    using tf by (auto simp: take_frame_def s_def peek_def sizeof_FrameHeader_def split: if_splits)
  then have le24: "(24::32 word) \<le> head s - tail s" by (simp add: not_less)
  have u1: "unat (head s - (tail s + 24)) = unat (head s - tail s) - 24"
  proof -
    have e: "head s - (tail s + 24) = (head s - tail s) - 24" by simp
    have "unat ((head s - tail s) - 24) = unat (head s - tail s) - unat (24::32 word)"
      using le24 by (rule unat_sub)
    then have s: "unat ((head s - tail s) - 24) = unat (head s - tail s) - 24" by simp
    show ?thesis by (simp only: e s)
  qed
  have u0: "24 \<le> unat (head s - tail s)" using le24 by (simp add: word_le_nat_alt)
  have sk: "snd (skip s 24) = s\<lparr>tail := tail s + 24\<rparr>" using ge by (simp add: skip_def)
  have rd: "unat (readAvailable (snd (read RING_BUFFER_SIZE (s\<lparr>tail := tail s + 24\<rparr>) n)))
            \<le> unat (head s - tail s) - 24" for n
  proof (cases "head s - (tail s + 24) < n")
    case True
    then show ?thesis by (simp add: read_def readAvailable_def u1)
  next
    case False
    then have le: "n \<le> head s - (tail s + 24)" by (simp add: not_less)
    have e: "head s - (tail s + 24 + n) = (head s - (tail s + 24)) - n" by simp
    have "unat ((head s - (tail s + 24)) - n) = unat (head s - (tail s + 24)) - unat n"
      using le by (rule unat_sub)
    then have "unat (head s - (tail s + 24 + n)) \<le> unat (head s - tail s) - 24"
      by (simp only: e u1)
    then show ?thesis using False by (simp add: read_def readAvailable_def Let_def)
  qed
  have "unat (readAvailable rb) \<le> unat (head s - tail s) - 24"
    using tf rd [of "payloadBytes header"]
    by (auto simp: take_frame_def s_def [symmetric] sizeof_FrameHeader_def Let_def sk
        readAvailable_def u1
        split: option.splits prod.splits bool.splits if_splits)
  then have "unat (readAvailable rb) < unat (readAvailable s)"
    using u0 by (simp add: readAvailable_def)
  then show "(c', c) \<in> measure (\<lambda>c. case m_region c of
                                       None \<Rightarrow> 0
                                     | Some r \<Rightarrow> unat (readAvailable (serverToClient r)))"
    by (simp add: reg reg' s_def)
qed

declare receiver_drain.simps [simp del]

text \<open>
  One iteration of the outer loop \<^verbatim>\<open>while (m_running.load())\<close>; \<open>recvSignalByte\<close> is the
  result of the platform call. The flag tells whether the loop goes on; when it does not,
  the code after the loop has run.
\<close>

definition receiverLoop_iteration :: "Client \<Rightarrow> int \<Rightarrow> bool \<times> Client \<times> event list" where
  "receiverLoop_iteration c recvSignalByte =
     (if \<not> m_running c \<or> recvSignalByte \<le> 0 then (False, receiverLoop_exit c, [])
      else case receiver_drain c of (c', ev) \<Rightarrow> (True, c', ev))"

text \<open>What the receiver does with the frames of a list, taken one after the other.\<close>

definition dispatch_all :: "Client \<Rightarrow> (FrameHeader \<times> 8 word list) list \<Rightarrow> Client" where
  "dispatch_all c fs = foldl (\<lambda>c' f. fst (receiver_dispatch c' (fst f) (snd f))) c fs"

text \<open>A RESPONSE header for the call registered under \<open>sq\<close>.\<close>

definition answers :: "32 word \<Rightarrow> FrameHeader \<Rightarrow> bool" where
  "answers sq header \<longleftrightarrow> flags header AND FRAME_RESPONSE \<noteq> 0 \<and> seq header = sq"

text \<open>
  A client is shared by its receiver thread, by the threads that call \<open>call\<close>, \<open>notify\<close>
  and \<open>disconnect\<close>, and, through the mapped region, by the server. Whatever touches
  \<open>m_pending\<close> or a \<open>PendingCall\<close> does so under \<^verbatim>\<open>m_pendingMutex\<close>, so between the moment
  the receiver has completed a call and the moment the woken caller gets the mutex the
  other threads have taken some sequence of these steps: an iteration of the receiver's
  inner loop, the code after the receiver loop, another thread's \<open>call\<close> up to its wait,
  another thread's \<open>call\<close> after its wait, a \<open>notify\<close>, a \<open>disconnect\<close>, and the server
  writing into or reading from the rings. The parts of \<open>call\<close> and \<open>notify\<close> outside the
  mutex touch the \<open>clientToServer\<close> ring only.
\<close>

datatype client_action =
    ReceiverTakes
  | ReceiverExits
  | CallBegins "32 word" "32 word" "8 word list" int
  | CallEnds "32 word" nat "8 word list option"
  | Notifies "32 word" "32 word" "8 word list" int
  | Disconnects
  | PeerWrites SharedRegion

fun act :: "Client \<Rightarrow> client_action \<Rightarrow> Client" where
  "act c ReceiverTakes = (case receiverLoop_step c of None \<Rightarrow> c | Some (c', ev) \<Rightarrow> c')"
| "act c ReceiverExits = receiverLoop_exit c"
| "act c (CallBegins sid methodId request sendSignalByte) =
     fst (snd (call_begin c sid methodId request sendSignalByte))"
| "act c (CallEnds sq p resp) = snd (snd (call_finish c sq p resp))"
| "act c (Notifies sid notifyId payload sendSignalByte) =
     fst (snd (Client_notify c sid notifyId payload sendSignalByte))"
| "act c Disconnects = fst (Client_disconnect c)"
| "act c (PeerWrites r) = (case m_region c of None \<Rightarrow> c | Some r0 \<Rightarrow> c\<lparr>m_region := Some r\<rparr>)"

text \<open>
  The steps that do not write the \<open>PendingCall\<close> of the caller waiting under \<open>sq\<close>: all
  but the code after the receiver loop and \<open>disconnect\<close>, which set the status of every
  pending call, and a receiver iteration that takes another RESPONSE for \<open>sq\<close>.
\<close>

fun leaves_alone :: "32 word \<Rightarrow> Client \<Rightarrow> client_action \<Rightarrow> bool" where
  "leaves_alone sq c ReceiverTakes =
     (case m_region c of
        None \<Rightarrow> True
      | Some r \<Rightarrow>
          (case take_frame (serverToClient r) of
             None \<Rightarrow> True
           | Some (header, payload, rb) \<Rightarrow> \<not> answers sq header))"
| "leaves_alone sq c ReceiverExits = False"
| "leaves_alone sq c Disconnects = False"
| "leaves_alone sq c (CallBegins sid methodId request sendSignalByte) = True"
| "leaves_alone sq c (CallEnds sq' p resp) = True"
| "leaves_alone sq c (Notifies sid notifyId payload sendSignalByte) = True"
| "leaves_alone sq c (PeerWrites r) = True"

fun undisturbed :: "32 word \<Rightarrow> Client \<Rightarrow> client_action list \<Rightarrow> bool" where
  "undisturbed sq c [] = True"
| "undisturbed sq c (a # as) = (leaves_alone sq c a \<and> undisturbed sq (act c a) as)"

text \<open>
  The \<open>PendingCall\<close> at \<open>p\<close> exists and belongs to the call registered under \<open>sq\<close>: no
  other entry of the table points to it (\<^verbatim>\<open>std::make_shared<PendingCall>()\<close> gives every
  call an object of its own).
\<close>

definition owns :: "Client \<Rightarrow> 32 word \<Rightarrow> nat \<Rightarrow> bool" where
  "owns c sq p \<longleftrightarrow>
     p < length (heap c) \<and> (\<forall>k \<in> fst ` set (m_pending c). map_of (m_pending c) k = Some p \<longrightarrow> k = sq)"

section \<open>Example states\<close>

text \<open>
  A \<open>Client\<close> as its constructor leaves it (the in-class initialisers of \<open>Client.h\<close>), a
  zero-filled shared region as \<^verbatim>\<open>memfd_create\<close> and \<^verbatim>\<open>ftruncate\<close> provide it, and the client
  after a successful \<open>connect\<close> on socket 3 with shared-memory descriptor 4.
\<close>

definition Client_init :: Client where
  "Client_init =
     \<lparr>m_socketFd = - 1, m_shmFd = - 1, m_region = None, m_running = False, m_nextSeq = 1,
      m_pending = [], m_notifyHandler = False, heap = []\<rparr>"

definition zero_region :: SharedRegion where
  "zero_region =
     \<lparr>clientToServer = initial (replicate 262144 0),
      serverToClient = initial (replicate 262144 0)\<rparr>"

definition connected_client :: Client where
  "connected_client =
     \<lparr>m_socketFd = 3, m_shmFd = 4, m_region = Some zero_region, m_running = True,
      m_nextSeq = 1, m_pending = [], m_notifyHandler = False, heap = []\<rparr>"

text \<open>A request handler that returns the user-defined status 5 and the payload \<open>[42]\<close>.\<close>

definition status5_handler :: RequestHandler where
  "status5_handler methodId request = (5, [42])"

definition two_connections :: "Connection list" where
  "two_connections =
     [\<lparr>socketFd = 5, shmFd = 6, region = Some zero_region\<rparr>,
      \<lparr>socketFd = 7, shmFd = 8, region = Some zero_region\<rparr>]"

text \<open>
  The \<open>clientToServer\<close> ring of a fresh connection after \<open>call\<close> was given a request of
  262144 bytes: the 24 header bytes, and nothing else, are committed.
\<close>

definition torn_ring :: RingBuffer where
  "torn_ring =
     \<lparr>head = 24, tail = 0,
      data = [1,0,1,0, 1,0,0,0, 7,0,0,0, 1,0,0,0, 0,0,4,0, 0,0,0,0] @ replicate 262120 0\<rparr>"

text \<open>
  The client of the example while its caller waits in \<open>call(1, 7, [41,0,0,0])\<close>: the
  request is in \<open>clientToServer\<close>, the call is registered under \<open>seq\<close> 1 with the
  \<open>PendingCall\<close> at 0.
\<close>

definition waiting_client :: Client where
  "waiting_client = fst (snd (call_begin connected_client 1 7 [41,0,0,0] 1))"

text \<open>A request handler that returns \<open>RPC_SUCCESS\<close> and the payload \<open>[42,0,0,0]\<close>.\<close>

definition ok_handler :: RequestHandler where
  "ok_handler methodId request = (0, [42,0,0,0])"

text \<open>
  The RESPONSE the server builds with that handler for the request of the example, the
  region after the server has taken the request and written that RESPONSE into an empty
  \<open>serverToClient\<close>, and the waiting client attached to it.
\<close>

definition answer_hdr :: FrameHeader where
  "answer_hdr = fst (build_response (Some ok_handler) (request_header 1 1 7 [41,0,0,0]) [41,0,0,0])"

definition answered_region :: SharedRegion where
  "answered_region =
     \<lparr>clientToServer = (clientToServer (the (m_region waiting_client)))\<lparr>tail := 28\<rparr>,
      serverToClient = snd (write_frame (initial (replicate 262144 0)) answer_hdr [42,0,0,0])\<rparr>"

definition answered_client :: Client where
  "answered_client = waiting_client\<lparr>m_region := Some answered_region\<rparr>"

text \<open>
  A \<open>serverToClient\<close> ring that holds one notification of four payload bytes which the
  client has not taken yet, and one that holds a notification of 262112 payload bytes:
  8 bytes are free.
\<close>

definition busy_ring :: RingBuffer where
  "busy_ring =
     snd (write_frame (initial (replicate 262144 0)) (notify_header 1 99 [123,0,0,0])
            [123,0,0,0])"

definition full_ring :: RingBuffer where
  "full_ring =
     snd (write_frame (initial (replicate 262144 0)) (notify_header 1 99 (replicate 262112 0))
            (replicate 262112 0))"

text \<open>
  The RESPONSE built for the request of the example when no handler is installed. The
  shared region with the request in \<open>clientToServer\<close> and the short notification in
  \<open>serverToClient\<close>; that region once the server has taken the request, written the
  RESPONSE and then one more notification, and the waiting client attached to it. The
  shared region with the request in \<open>clientToServer\<close> and the long notification in
  \<open>serverToClient\<close>, and the waiting client once the server has taken the request there.
\<close>

definition refusal_hdr :: FrameHeader where
  "refusal_hdr = fst (build_response None (request_header 1 1 7 [41,0,0,0]) [41,0,0,0])"

definition busy_region :: SharedRegion where
  "busy_region = (the (m_region waiting_client))\<lparr>serverToClient := busy_ring\<rparr>"

definition refused_region :: SharedRegion where
  "refused_region =
     busy_region\<lparr>clientToServer := (clientToServer busy_region)\<lparr>tail := 28\<rparr>,
                 serverToClient :=
                   snd (write_frame (snd (write_frame (serverToClient busy_region) refusal_hdr []))
                          (notify_header 1 100 [5]) [5])\<rparr>"

definition refused_client :: Client where
  "refused_client = waiting_client\<lparr>m_region := Some refused_region\<rparr>"

definition full_region :: SharedRegion where
  "full_region = (the (m_region waiting_client))\<lparr>serverToClient := full_ring\<rparr>"

definition stalled_client :: Client where
  "stalled_client =
     waiting_client\<lparr>m_region :=
       Some (full_region\<lparr>clientToServer := (clientToServer full_region)\<lparr>tail := 28\<rparr>\<rparr>)\<rparr>"

section \<open>Arithmetic of ring offsets\<close>

lemma pow2_nat:
  fixes n :: nat
  assumes "0 < n" "n AND (n - 1) = 0"
  shows "\<exists>k. n = 2 ^ k"
  using assms
proof (induction n rule: less_induct)
  case (less n)
  show ?case
  proof (cases "even n")
    case True
    then obtain m where m: "n = 2 * m" by (auto elim: evenE)
    with less.prems have m0: "0 < m" by simp
    have "(n - 1) div 2 = m - 1" using m m0 by simp
    then have "n AND (n - 1) = 2 * (m AND (m - 1))"
      using m by (subst and_rec) simp
    with less.prems have "m AND (m - 1) = 0" by simp
    moreover have "m < n" using m m0 by simp
    ultimately obtain k where "m = 2 ^ k" using less.IH m0 by blast
    then have "n = 2 ^ Suc k" using m by simp
    then show ?thesis by blast
  next
    case False
    then obtain m where m: "n = 2 * m + 1" by (auto elim: oddE)
    have "n AND (n - 1) = 2 * m"
      using m by (subst and_rec) simp
    with less.prems have "m = 0" by simp
    then have "n = 2 ^ 0" using m by simp
    then show ?thesis by blast
  qed
qed

lemma pow2_word:
  fixes x :: "32 word"
  assumes "x \<noteq> 0" "x AND (x - 1) = 0"
  shows "\<exists>k<32. x = 2 ^ k"
proof -
  have u: "unat (x - 1) = unat x - 1" using assms(1)
    by (simp add: unat_minus_one)
  have "unat (x AND (x - 1)) = unat x AND (unat x - 1)"
    by (simp add: unsigned_and_eq u)
  with assms(2) have "unat x AND (unat x - 1) = 0" by simp
  moreover have "0 < unat x" using assms(1) by (simp add: unat_gt_0)
  ultimately obtain k where k: "unat x = 2 ^ k" using pow2_nat by blast
  have "(2::nat) ^ k < 2 ^ LENGTH(32)"
    using unsigned_less [of x, where ?'a = nat] k by metis
  then have "k < LENGTH(32)" by (rule power_less_imp_less_exp [rotated]) simp
  then have "k < 32" by simp
  moreover have "x = 2 ^ k"
  proof -
    have "x = of_nat (unat x)" by simp
    also have "\<dots> = of_nat (2 ^ k)" by (simp only: k)
    also have "\<dots> = 2 ^ k" by simp
    finally show ?thesis .
  qed
  ultimately show ?thesis by blast
qed

lemma valid_size_pow2: "valid_size Size \<Longrightarrow> \<exists>k<32. Size = 2 ^ k"
  unfolding valid_size_def using pow2_word [of Size] by (simp add: word_greater_zero_iff)

lemma unat_pow2:
  assumes "k < 32"
  shows "unat ((2::32 word) ^ k) = 2 ^ k"
proof -
  from assms have "(2::nat) ^ k < 2 ^ 32" by (rule power_strict_increasing) simp
  then have "(2::nat) ^ k mod 2 ^ LENGTH(32) = 2 ^ k" by simp
  moreover have "(2::32 word) ^ k = of_nat (2 ^ k)" by simp
  ultimately show ?thesis by (simp only: unat_of_nat)
qed

lemma unat_offset:
  assumes "k < 32"
  shows "unat (h AND ((2::32 word) ^ k - 1)) = unat h mod 2 ^ k"
proof -
  have "h AND ((2::32 word) ^ k - 1) = h mod 2 ^ k"
    by (simp add: take_bit_eq_mask mask_eq_exp_minus_1 flip: take_bit_eq_mod)
  then show ?thesis by (simp only: unat_mod unat_pow2 [OF assms])
qed

lemma unat_index:
  assumes "k < 32"
  shows "unat ((h + of_nat i) AND ((2::32 word) ^ k - 1)) = (unat h + i) mod 2 ^ k"
proof -
  have d: "(2::nat) ^ k dvd 2 ^ 32"
    using assms le_imp_power_dvd [of k 32 "2::nat"] by simp
  have "unat (h + of_nat i :: 32 word) = (unat h + i) mod 2 ^ 32"
    by (simp add: unat_word_ariths unat_of_nat mod_add_right_eq)
  then have "unat ((h + of_nat i) AND ((2::32 word) ^ k - 1)) = (unat h + i) mod 2 ^ 32 mod 2 ^ k"
    using unat_offset [OF assms, of "h + of_nat i"] by (simp only:)
  also have "\<dots> = (unat h + i) mod 2 ^ k" using d by (rule mod_mod_cancel)
  finally show ?thesis .
qed

section \<open>Copying into the ring's array\<close>

lemma length_memcpy:
  "off + n \<le> length dst \<Longrightarrow> n \<le> length src \<Longrightarrow> length (memcpy dst off src n) = length dst"
  by (simp add: memcpy_def)

lemma nth_memcpy:
  "off + n \<le> length dst \<Longrightarrow> n \<le> length src \<Longrightarrow> j < length dst \<Longrightarrow>
   memcpy dst off src n ! j = (if off \<le> j \<and> j < off + n then src ! (j - off) else dst ! j)"
  by (auto simp: memcpy_def nth_append)

lemma ring_put_length:
  assumes "off < length d" "L \<le> length d" "L \<le> length src"
  shows "length (ring_put d off src L) = length d"
  using assms by (auto simp: ring_put_def Let_def length_memcpy)

lemma ring_put_nth:
  assumes "off < length d" "L \<le> length d" "L \<le> length src" "j < length d"
  shows "ring_put d off src L ! j =
     (if off \<le> j \<and> j < off + L then src ! (j - off)
      else if j + length d < off + L then src ! (j + length d - off)
      else d ! j)"
  using assms by (auto simp: ring_put_def Let_def length_memcpy nth_memcpy add.commute)

lemma ring_put_written:
  assumes "off < length d" "L \<le> length d" "L \<le> length src" "i < L"
  shows "ring_put d off src L ! ((off + i) mod length d) = src ! i"
proof (cases "off + i < length d")
  case True
  then show ?thesis using assms by (simp add: ring_put_nth)
next
  case False
  define j where "j = off + i - length d"
  have m: "(off + i) mod length d = j"
    using assms False by (simp add: mod_if j_def)
  have j1: "j < length d" "\<not> (off \<le> j \<and> j < off + L)" "j + length d < off + L"
    "j + length d - off = i"
    using assms False by (auto simp: j_def)
  show ?thesis unfolding m using assms j1 by (simp only: ring_put_nth if_True if_False)
qed

lemma ring_put_other:
  assumes "off < length d" "L \<le> length d" "L \<le> length src" "j < length d"
    and "\<forall>i<L. j \<noteq> (off + i) mod length d"
  shows "ring_put d off src L ! j = d ! j"
proof -
  have a: "\<not> (off \<le> j \<and> j < off + L)"
  proof
    assume h: "off \<le> j \<and> j < off + L"
    then have "j - off < L" by arith
    with assms(5) have "j \<noteq> (off + (j - off)) mod length d" by blast
    with h assms(4) show False by simp
  qed
  have b: "\<not> (j + length d < off + L)"
  proof
    assume h: "j + length d < off + L"
    then have "j + length d - off < L" using assms by arith
    with assms(5) have "j \<noteq> (off + (j + length d - off)) mod length d" by blast
    moreover have "off + (j + length d - off) = j + length d" using h assms by arith
    ultimately show False using assms(4) by simp
  qed
  show ?thesis using assms a b by (simp only: ring_put_nth if_False)
qed

section \<open>RingBuffer::write\<close>

lemma write_rb_fail:
  "writeAvailable Size rb < len \<Longrightarrow> write_rb Size rb src len = (False, rb)"
  by (simp add: write_rb_def writeAvailable_def)

lemma write_rb_data:
  assumes ok: "ring_ok Size rb" and fit: "len \<le> writeAvailable Size rb"
  shows "write_rb Size rb src len =
           (True, rb\<lparr>data := ring_put (data rb) (unat (head rb) mod unat Size) src (unat len),
                      head := head rb + len\<rparr>)"
    and "unat (head rb) mod unat Size < length (data rb)"
    and "unat len \<le> length (data rb)"
proof -
  from ok obtain k where k: "k < 32" "Size = 2 ^ k"
    using valid_size_pow2 by (auto simp: ring_ok_def)
  have N: "unat Size = 2 ^ k" using k by (simp only: unat_pow2)
  have len_d: "length (data rb) = unat Size" using ok by (simp add: ring_ok_def)
  define off where "off = head rb AND (Size - 1)"
  have off: "unat off = unat (head rb) mod unat Size"
    unfolding off_def N using k unat_offset by simp
  have off_lt: "unat off < unat Size" unfolding off N by simp
  then have off_le: "off \<le> Size" by (simp add: word_le_nat_alt)
  have fc: "unat (Size - off) = unat Size - unat off"
    using off_le by (rule unat_sub)
  have used: "head rb - tail rb \<le> Size" using ok by (simp add: ring_ok_def)
  have wa: "unat (writeAvailable Size rb) = unat Size - unat (head rb - tail rb)"
    unfolding writeAvailable_def using used by (rule unat_sub)
  have L: "unat len \<le> unat Size"
    using fit wa by (simp add: word_le_nat_alt)
  have nf: "\<not> Size - (head rb - tail rb) < len"
    using fit by (simp add: writeAvailable_def not_less)
  have cmp: "len \<le> Size - off \<longleftrightarrow> unat len \<le> unat Size - unat off"
    by (simp add: word_le_nat_alt fc)
  have sub2: "\<not> len \<le> Size - off \<Longrightarrow>
      unat (len - (Size - off)) = unat len - (unat Size - unat off)"
    using unat_sub [of "Size - off" len] fc
    by (simp add: not_le word_le_nat_alt word_less_nat_alt)
  show "write_rb Size rb src len =
           (True, rb\<lparr>data := ring_put (data rb) (unat (head rb) mod unat Size) src (unat len),
                      head := head rb + len\<rparr>)"
    using nf cmp sub2
    by (simp add: write_rb_def Let_def ring_put_def len_d off_def [symmetric] off [symmetric] fc)
  show "unat (head rb) mod unat Size < length (data rb)"
    using off_lt by (simp add: len_d off)
  show "unat len \<le> length (data rb)" using L by (simp add: len_d)
qed

text \<open>
  C4: a write longer than \<open>writeAvailable()\<close> returns false and leaves head, tail and the
  array as they were. A write of at most \<open>writeAvailable()\<close> bytes into a ring that
  satisfies its invariant, from a source that holds \<open>len\<close> bytes, returns true, advances
  head by \<open>len\<close>, leaves tail alone, and puts source byte \<open>i\<close> at array index
  \<open>(head + i) & (Size - 1)\<close> for every \<open>i < len\<close> (so the copy wraps at the end of the
  array); every other array cell keeps its value.
\<close>

theorem C4_write:
  "(writeAvailable Size rb < len \<longrightarrow> write_rb Size rb src len = (False, rb)) \<and>
   (ring_ok Size rb \<and> len \<le> writeAvailable Size rb \<and> unat len \<le> length src \<longrightarrow>
      fst (write_rb Size rb src len) \<and>
      head (snd (write_rb Size rb src len)) = head rb + len \<and>
      tail (snd (write_rb Size rb src len)) = tail rb \<and>
      length (data (snd (write_rb Size rb src len))) = unat Size \<and>
      (\<forall>i<unat len. data (snd (write_rb Size rb src len)) !
                       unat ((head rb + of_nat i) AND (Size - 1)) = src ! i) \<and>
      (\<forall>j<unat Size. (\<forall>i<unat len. j \<noteq> unat ((head rb + of_nat i) AND (Size - 1))) \<longrightarrow>
          data (snd (write_rb Size rb src len)) ! j = data rb ! j))"
proof (intro conjI impI)
  assume "writeAvailable Size rb < len"
  then show "write_rb Size rb src len = (False, rb)" by (rule write_rb_fail)
next
  assume a: "ring_ok Size rb \<and> len \<le> writeAvailable Size rb \<and> unat len \<le> length src"
  then have ok: "ring_ok Size rb" and fit: "len \<le> writeAvailable Size rb"
    and src: "unat len \<le> length src" by simp_all
  note w = write_rb_data [OF ok fit]
  from ok obtain k where k: "k < 32" "Size = 2 ^ k"
    using valid_size_pow2 by (auto simp: ring_ok_def)
  have len_d: "length (data rb) = unat Size" using ok by (simp add: ring_ok_def)
  have idx: "unat ((head rb + of_nat i) AND (Size - 1)) =
             (unat (head rb) mod unat Size + i) mod length (data rb)" for i
    unfolding len_d k(2)
    by (simp add: unat_index [OF k(1)] unat_pow2 [OF k(1)] mod_add_left_eq)
  show "fst (write_rb Size rb src len)" by (simp add: w(1))
  show "head (snd (write_rb Size rb src len)) = head rb + len" by (simp add: w(1))
  show "tail (snd (write_rb Size rb src len)) = tail rb" by (simp add: w(1))
  show "length (data (snd (write_rb Size rb src len))) = unat Size"
    using ring_put_length [OF w(2) w(3) src] by (simp add: w(1) len_d)
  show "\<forall>i<unat len. data (snd (write_rb Size rb src len)) !
                       unat ((head rb + of_nat i) AND (Size - 1)) = src ! i"
    using ring_put_written [OF w(2) w(3) src] by (simp add: w(1) idx)
  show "\<forall>j<unat Size. (\<forall>i<unat len. j \<noteq> unat ((head rb + of_nat i) AND (Size - 1))) \<longrightarrow>
          data (snd (write_rb Size rb src len)) ! j = data rb ! j"
    using ring_put_other [OF w(2) w(3) src] by (simp add: w(1) idx len_d)
qed

theorem C4_write_witness:
  "writeAvailable 8 \<lparr>head = 6, tail = 2, data = [0,0,0,0,0,0,0,0]\<rparr> < 5 \<and>
   write_rb 8 \<lparr>head = 6, tail = 2, data = [0,0,0,0,0,0,0,0]\<rparr> [1,2,3,4,5] 5 =
     (False, \<lparr>head = 6, tail = 2, data = [0,0,0,0,0,0,0,0]\<rparr>) \<and>
   ring_ok 8 \<lparr>head = 6, tail = 2, data = [0,0,0,0,0,0,0,0]\<rparr> \<and>
   (3::32 word) \<le> writeAvailable 8 \<lparr>head = 6, tail = 2, data = [0,0,0,0,0,0,0,0]\<rparr> \<and>
   unat (3::32 word) \<le> length [1,2,3::8 word] \<and>
   write_rb 8 \<lparr>head = 6, tail = 2, data = [0,0,0,0,0,0,0,0]\<rparr> [1,2,3] 3 =
     (True, \<lparr>head = 9, tail = 2, data = [3,0,0,0,0,0,1,2]\<rparr>)"
  using C4_write [of 8 "\<lparr>head = 6, tail = 2, data = [0,0,0,0,0,0,0,0]\<rparr>" 5 "[1,2,3,4,5]"]
    C4_write [of 8 "\<lparr>head = 6, tail = 2, data = [0,0,0,0,0,0,0,0]\<rparr>" 3 "[1,2,3]"]
  by (simp add: writeAvailable_def write_rb_def ring_ok_def valid_size_def memcpy_def Let_def)

section \<open>readAvailable + writeAvailable\<close>

lemma balanced_iff: "balanced Size rb \<longleftrightarrow> head rb - tail rb \<le> Size"
proof
  assume "balanced Size rb"
  then have "unat (head rb - tail rb) \<le> unat Size"
    by (simp add: balanced_def readAvailable_def capacity_def)
  then show "head rb - tail rb \<le> Size" by (simp add: word_le_nat_alt)
next
  assume le: "head rb - tail rb \<le> Size"
  then have "unat (Size - (head rb - tail rb)) = unat Size - unat (head rb - tail rb)"
    by (rule unat_sub)
  moreover have "unat (head rb - tail rb) \<le> unat Size"
    using le by (simp add: word_le_nat_alt)
  ultimately show "balanced Size rb"
    by (simp add: balanced_def readAvailable_def writeAvailable_def capacity_def)
qed

lemma used_after_write:
  fixes h t len Size :: "32 word"
  assumes "h - t \<le> Size" "\<not> Size - (h - t) < len"
  shows "h + len - t \<le> Size"
proof -
  have e: "h + len - t = (h - t) + len" by simp
  have s: "unat (Size - (h - t)) = unat Size - unat (h - t)"
    using assms(1) by (rule unat_sub)
  have u: "unat (h - t) \<le> unat Size" using assms(1) by (simp add: word_le_nat_alt)
  have l: "unat len \<le> unat Size - unat (h - t)"
    using assms(2) s by (simp add: not_less word_le_nat_alt)
  have "unat Size < 2 ^ LENGTH(32)" by (rule unsigned_less)
  with u l have "unat (h - t) + unat len < 2 ^ LENGTH(32)" by arith
  then have "unat ((h - t) + len) = unat (h - t) + unat len"
    by (simp only: unat_add_lem)
  with u l have "(h - t) + len \<le> Size" by (simp add: word_le_nat_alt)
  then show ?thesis by (simp only: e)
qed

lemma used_after_read:
  fixes h t len Size :: "32 word"
  assumes "h - t \<le> Size" "\<not> h - t < len"
  shows "h - (t + len) \<le> Size"
proof -
  have e: "h - (t + len) = (h - t) - len" by simp
  have "len \<le> h - t" using assms(2) by (simp add: not_less)
  then have "unat ((h - t) - len) = unat (h - t) - unat len" by (rule unat_sub)
  moreover have "unat (h - t) \<le> unat Size" using assms(1) by (simp add: word_le_nat_alt)
  ultimately have "(h - t) - len \<le> Size" by (simp add: word_le_nat_alt)
  then show ?thesis by (simp only: e)
qed

lemma apply_op_used:
  "head rb - tail rb \<le> Size \<Longrightarrow>
   head (apply_op Size rb op) - tail (apply_op Size rb op) \<le> Size"
  by (cases op)
     (simp_all add: reset_def write_rb_def read_def skip_def Let_def
        used_after_write used_after_read)

lemma foldl_used:
  "head rb - tail rb \<le> Size \<Longrightarrow>
   head (foldl (apply_op Size) rb ops) - tail (foldl (apply_op Size) rb ops) \<le> Size"
  by (induction ops arbitrary: rb) (simp_all add: apply_op_used)

text \<open>The representation invariant holds initially and is kept by every operation.\<close>

lemma ring_ok_initial:
  "valid_size Size \<Longrightarrow> length d = unat Size \<Longrightarrow> ring_ok Size (initial d)"
  by (simp add: ring_ok_def initial_def)

lemma ring_ok_write_rb:
  assumes ok: "ring_ok Size rb" and src: "unat len \<le> length src"
  shows "ring_ok Size (snd (write_rb Size rb src len))"
proof (cases "Size - (head rb - tail rb) < len")
  case True
  then show ?thesis using ok by (simp add: write_rb_def)
next
  case False
  then have fit: "len \<le> writeAvailable Size rb" by (simp add: writeAvailable_def not_less)
  note w = write_rb_data [OF ok fit]
  have u: "head rb - tail rb \<le> Size" using ok by (simp add: ring_ok_def)
  have l: "length (data rb) = unat Size" using ok by (simp add: ring_ok_def)
  show ?thesis
    using ok ring_put_length [OF w(2) w(3) src] used_after_write [OF u False]
    by (simp add: w(1) ring_ok_def l)
qed

lemma ring_ok_apply_op:
  assumes "ring_ok Size rb" and "\<And>src len. op = Write src len \<Longrightarrow> unat len \<le> length src"
  shows "ring_ok Size (apply_op Size rb op)"
proof (cases op)
  case (Write src len)
  then show ?thesis using assms ring_ok_write_rb by simp
next
  case Reset
  then show ?thesis using assms(1) by (simp add: ring_ok_def reset_def)
next
  case (Read len)
  then show ?thesis using assms(1)
    by (simp add: ring_ok_def read_def Let_def used_after_read)
next
  case (Peek len)
  then show ?thesis using assms(1) by simp
next
  case (Skip len)
  then show ?thesis using assms(1)
    by (simp add: ring_ok_def skip_def used_after_read)
qed

text \<open>
  C5: in every state reached from a freshly constructed ring by any sequence of reset,
  write, read, peek and skip operations, \<open>readAvailable() + writeAvailable()\<close> equals
  \<open>capacity()\<close> (as numbers, without wrap-around); and each single operation, applied
  to any state in which the equality holds, gives a state in which it holds.
\<close>

theorem C5_balance:
  "balanced Size (foldl (apply_op Size) (initial d) ops) \<and>
   (balanced Size rb \<longrightarrow> balanced Size (apply_op Size rb op))"
proof
  have "head (initial d) - tail (initial d) \<le> Size" by (simp add: initial_def)
  then show "balanced Size (foldl (apply_op Size) (initial d) ops)"
    unfolding balanced_iff by (rule foldl_used)
  show "balanced Size rb \<longrightarrow> balanced Size (apply_op Size rb op)"
    unfolding balanced_iff by (simp add: apply_op_used)
qed

theorem C5_balance_witness:
  "balanced 8 (foldl (apply_op 8) (initial [0,0,0,0,0,0,0,0])
                 [Write [1,2,3,4,5,6] 6, Read 4, Write [7,8,9] 3, Peek 2, Skip 1, Reset]) \<and>
   balanced 8 \<lparr>head = 6, tail = 2, data = [0,0,0,0,0,0,0,0]\<rparr> \<and>
   balanced 8 (apply_op 8 \<lparr>head = 6, tail = 2, data = [0,0,0,0,0,0,0,0]\<rparr> (Write [1,2,3] 3)) \<and>
   unat (readAvailable (apply_op 8 \<lparr>head = 6, tail = 2, data = [0,0,0,0,0,0,0,0]\<rparr>
                          (Write [1,2,3] 3))) = 7"
  using C5_balance [of 8 "[0,0,0,0,0,0,0,0]"
      "[Write [1,2,3,4,5,6] 6, Read 4, Write [7,8,9] 3, Peek 2, Skip 1, Reset]"
      "\<lparr>head = 6, tail = 2, data = [0,0,0,0,0,0,0,0]\<rparr>" "Write [1,2,3] 3"]
  by (simp add: balanced_def readAvailable_def writeAvailable_def capacity_def
      write_rb_def Let_def)

section \<open>Frame header codec\<close>

lemma le16_roundtrip:
  "ucast (ucast w :: 8 word) OR push_bit 8 (ucast (ucast (drop_bit 8 w) :: 8 word)) = w"
  for w :: "16 word"
  by (rule bit_word_eqI) (auto simp: bit_simps)

lemma le32_roundtrip:
  "ucast (ucast w :: 8 word) OR push_bit 8 (ucast (ucast (drop_bit 8 w) :: 8 word))
   OR push_bit 16 (ucast (ucast (drop_bit 16 w) :: 8 word))
   OR push_bit 24 (ucast (ucast (drop_bit 24 w) :: 8 word)) = w" (is "?l = w")
  for w :: "32 word"
proof (rule bit_word_eqI)
  fix n
  assume "n < LENGTH(32)"
  then consider "n < 8" | "8 \<le> n" "n < 16" | "16 \<le> n" "n < 24" | "24 \<le> n" "n < 32"
    by fastforce
  then show "bit ?l n = bit w n"
    by cases (auto simp: bit_simps)
qed

lemma length_encodeFrameHeader: "length (encodeFrameHeader h) = 24"
  by (simp add: encodeFrameHeader_def put_le16_def put_le32_def)

lemma decode_encode:
  "decodeFrameHeader (encodeFrameHeader h) 24 (Some h0) = (True, Some h)"
  by (simp add: decodeFrameHeader_def sizeof_FrameHeader_def encodeFrameHeader_def
      put_le16_def put_le32_def get_le16_def get_le32_def byte_at_def
      le16_roundtrip le32_roundtrip)

lemma decode_short:
  "len < 24 \<Longrightarrow> decodeFrameHeader bytes len out = (False, out)"
  by (simp add: decodeFrameHeader_def sizeof_FrameHeader_def word_less_nat_alt)

text \<open>
  C3: for every header \<open>h\<close>, \<open>encodeFrameHeader h\<close> is 24 bytes long, and
  \<open>decodeFrameHeader\<close> applied to it (with its length and a non-null \<open>out\<close>) returns true
  and leaves exactly \<open>h\<close> in \<open>out\<close>; for every length argument below 24,
  \<open>decodeFrameHeader\<close> returns false and leaves \<open>out\<close> untouched.
\<close>

theorem C3_codec_roundtrip:
  "length (encodeFrameHeader h) = 24 \<and>
   decodeFrameHeader (encodeFrameHeader h) (of_nat (length (encodeFrameHeader h))) (Some h0)
     = (True, Some h) \<and>
   (len < 24 \<longrightarrow> decodeFrameHeader bytes len out = (False, out))"
  by (simp add: length_encodeFrameHeader decode_encode decode_short)

theorem C3_codec_roundtrip_witness:
  "decodeFrameHeader
     (encodeFrameHeader \<lparr>version = 1, flags = 1, serviceId = 3, messageId = 8, seq = 11,
                         payloadBytes = 17, aux = 55\<rparr>) 24 (Some FrameHeader_zero)
     = (True, Some \<lparr>version = 1, flags = 1, serviceId = 3, messageId = 8, seq = 11,
                    payloadBytes = 17, aux = 55\<rparr>) \<and>
   (23::32 word) < 24 \<and>
   decodeFrameHeader (replicate 23 7) 23 (Some FrameHeader_zero) = (False, Some FrameHeader_zero)"
  using C3_codec_roundtrip [of "\<lparr>version = 1, flags = 1, serviceId = 3, messageId = 8,
      seq = 11, payloadBytes = 17, aux = 55\<rparr>" FrameHeader_zero 23 "replicate 23 7"
      "Some FrameHeader_zero"]
  by (simp add: length_encodeFrameHeader)

section \<open>Reading back what was written\<close>

lemma ring_get_length:
  assumes "off < length d" "L \<le> length d"
  shows "length (ring_get d off L) = L"
  using assms by (auto simp: ring_get_def Let_def memcpy_out_def)

lemma ring_get_nth:
  assumes "off < length d" "L \<le> length d" "i < L"
  shows "ring_get d off L ! i = d ! ((off + i) mod length d)"
proof (cases "off + i < length d")
  case True
  then show ?thesis using assms
    by (auto simp: ring_get_def Let_def memcpy_out_def nth_append)
next
  case False
  define j where "j = off + i - length d"
  have m: "(off + i) mod length d = j"
    using assms False by (simp add: mod_if j_def)
  have w: "\<not> L \<le> length d - off" using False assms by arith
  have f: "length (memcpy_out d off (length d - off)) = length d - off"
    by (simp add: memcpy_out_def)
  have ni: "\<not> i < length d - off" using False by arith
  have ij: "i - (length d - off) = j" using False assms by (simp add: j_def)
  have jl: "j < L - (length d - off)" "j < length d" using False assms by (auto simp: j_def)
  have "ring_get d off L ! i = memcpy_out d 0 (L - (length d - off)) ! j"
    using w ni by (simp add: ring_get_def Let_def nth_append f ij)
  also have "\<dots> = d ! j" using jl by (simp add: memcpy_out_def)
  finally show ?thesis by (simp only: m)
qed

lemma ring_get_put_same:
  assumes "off < length d" "L \<le> length d" "L \<le> length src"
  shows "ring_get (ring_put d off src L) off L = take L src"
proof (rule nth_equalityI)
  have l: "length (ring_put d off src L) = length d" using assms by (rule ring_put_length)
  show "length (ring_get (ring_put d off src L) off L) = length (take L src)"
    using assms by (simp add: ring_get_length l)
  fix i
  assume "i < length (ring_get (ring_put d off src L) off L)"
  then have i: "i < L" using assms by (simp add: ring_get_length l)
  show "ring_get (ring_put d off src L) off L ! i = take L src ! i"
    using assms i ring_put_written [OF assms i]
    by (simp add: ring_get_nth l)
qed

lemma mod_shift_neq:
  fixes N :: nat
  assumes "a < b" "b - a < N"
  shows "a mod N \<noteq> b mod N"
proof
  assume "a mod N = b mod N"
  then have "b mod N = a mod N" by simp
  then have "N dvd b - a" using assms(1) by (simp add: mod_eq_dvd_iff_nat)
  then have "N \<le> b - a" using assms(1) by (intro dvd_imp_le) simp_all
  with assms(2) show False by simp
qed

lemma ring_get_put_after:
  assumes "off < length d" "L + L2 \<le> length d" "L2 \<le> length src"
  shows "ring_get (ring_put d ((off + L) mod length d) src L2) off L = ring_get d off L"
proof (rule nth_equalityI)
  from assms(1) have N0: "0 < length d" by (rule le_less_trans [OF le0])
  have o2: "(off + L) mod length d < length d" using N0 by simp
  have L2: "L2 \<le> length d" and L: "L \<le> length d" using assms by simp_all
  have l: "length (ring_put d ((off + L) mod length d) src L2) = length d"
    using o2 L2 assms(3) by (rule ring_put_length)
  show "length (ring_get (ring_put d ((off + L) mod length d) src L2) off L) =
        length (ring_get d off L)"
    using assms L by (simp add: ring_get_length l)
  fix i
  assume "i < length (ring_get (ring_put d ((off + L) mod length d) src L2) off L)"
  then have i: "i < L" using assms L by (simp add: ring_get_length l)
  have ne: "\<forall>j<L2. (off + i) mod length d \<noteq> ((off + L) mod length d + j) mod length d"
  proof (intro allI impI)
    fix j
    assume j: "j < L2"
    have "(off + i) mod length d \<noteq> (off + L + j) mod length d"
      using i j assms by (intro mod_shift_neq) simp_all
    then show "(off + i) mod length d \<noteq> ((off + L) mod length d + j) mod length d"
      by (simp add: mod_add_left_eq)
  qed
  have "ring_put d ((off + L) mod length d) src L2 ! ((off + i) mod length d) =
        d ! ((off + i) mod length d)"
  proof (rule ring_put_other [OF o2 L2 assms(3) _ ne])
    show "(off + i) mod length d < length d" using N0 by (rule mod_less_divisor)
  qed
  then show "ring_get (ring_put d ((off + L) mod length d) src L2) off L ! i =
             ring_get d off L ! i"
    using assms i L by (simp add: ring_get_nth l)
qed

lemma peek_data:
  assumes ok: "ring_ok Size rb" and fit: "len \<le> readAvailable rb"
  shows "peek Size rb len =
           Some (ring_get (data rb) (unat (tail rb) mod unat Size) (unat len))"
    and "unat (tail rb) mod unat Size < length (data rb)"
    and "unat len \<le> length (data rb)"
proof -
  from ok obtain k where k: "k < 32" "Size = 2 ^ k"
    using valid_size_pow2 by (auto simp: ring_ok_def)
  have N: "unat Size = 2 ^ k" using k by (simp only: unat_pow2)
  have len_d: "length (data rb) = unat Size" using ok by (simp add: ring_ok_def)
  define off where "off = tail rb AND (Size - 1)"
  have off: "unat off = unat (tail rb) mod unat Size"
    unfolding off_def N using k unat_offset by simp
  have off_lt: "unat off < unat Size" unfolding off N by simp
  then have off_le: "off \<le> Size" by (simp add: word_le_nat_alt)
  have fc: "unat (Size - off) = unat Size - unat off"
    using off_le by (rule unat_sub)
  have used: "head rb - tail rb \<le> Size" using ok by (simp add: ring_ok_def)
  have L: "unat len \<le> unat Size"
    using fit used by (simp add: word_le_nat_alt readAvailable_def)
  have nf: "\<not> head rb - tail rb < len"
    using fit by (simp add: readAvailable_def not_less)
  have cmp: "len \<le> Size - off \<longleftrightarrow> unat len \<le> unat Size - unat off"
    by (simp add: word_le_nat_alt fc)
  have sub2: "\<not> len \<le> Size - off \<Longrightarrow>
      unat (len - (Size - off)) = unat len - (unat Size - unat off)"
    using unat_sub [of "Size - off" len] fc
    by (simp add: not_le word_le_nat_alt word_less_nat_alt)
  show "peek Size rb len =
           Some (ring_get (data rb) (unat (tail rb) mod unat Size) (unat len))"
    using nf cmp sub2
    by (simp add: peek_def Let_def ring_get_def len_d off_def [symmetric] off [symmetric] fc)
  show "unat (tail rb) mod unat Size < length (data rb)"
    using off_lt by (simp add: len_d off)
  show "unat len \<le> length (data rb)" using L by (simp add: len_d)
qed

lemma read_peek:
  "read Size rb len =
     (case peek Size rb len of
        None \<Rightarrow> (None, rb)
      | Some bytes \<Rightarrow> (Some bytes, rb\<lparr>tail := tail rb + len\<rparr>))"
  by (simp add: read_def peek_def Let_def)

lemma wire_of_encoded: "wire_of_bytes (encodeFrameHeader h) = h"
  by (simp add: wire_of_bytes_def encodeFrameHeader_def
      put_le16_def put_le32_def get_le16_def get_le32_def byte_at_def
      le16_roundtrip le32_roundtrip)

lemma ring_size:
  "valid_size RING_BUFFER_SIZE" "unat RING_BUFFER_SIZE = 262144"
  by (simp_all add: valid_size_def RING_BUFFER_SIZE_def)

lemma ring_pow: "RING_BUFFER_SIZE = 2 ^ 18"
  by (simp add: RING_BUFFER_SIZE_def)

lemma unat_shift_mod:
  "unat (t + of_nat i :: 32 word) mod 262144 = (unat t mod 262144 + i) mod 262144"
proof -
  have k: "(18::nat) < 32" by simp
  have "unat ((t + of_nat i) AND ((2::32 word) ^ 18 - 1)) = unat (t + of_nat i) mod 2 ^ 18"
    using k by (rule unat_offset)
  moreover have "unat ((t + of_nat i) AND ((2::32 word) ^ 18 - 1)) = (unat t + i) mod 2 ^ 18"
    using k by (rule unat_index)
  ultimately have "unat (t + of_nat i) mod 2 ^ 18 = (unat t + i) mod 2 ^ 18" by simp
  then show ?thesis by (simp add: mod_add_left_eq)
qed

lemma unat_len:
  assumes "n \<le> 262144"
  shows "unat (of_nat n :: 32 word) = n"
  using assms by (simp add: unat_of_nat)

lemma unat_24_plus:
  assumes "24 + n \<le> 262144"
  shows "unat (24 + of_nat n :: 32 word) = 24 + n"
proof -
  have "(24 + of_nat n :: 32 word) = of_nat (24 + n)" by simp
  then show ?thesis using assms by (simp only: unat_of_nat) simp
qed

text \<open>
  A frame written into an empty ring is taken out unchanged by the receivers' drain step,
  which leaves the ring empty again.
\<close>

lemma frame_transport:
  assumes ok: "ring_ok RING_BUFFER_SIZE rb" and empty: "head rb = tail rb"
    and pb: "payloadBytes h = of_nat (length p)" and fit: "24 + length p \<le> 262144"
  shows "fst (write_frame rb h p)"
    and "head (snd (write_frame rb h p)) = head rb + 24 + of_nat (length p)"
    and "tail (snd (write_frame rb h p)) = tail rb"
    and "take_frame (snd (write_frame rb h p)) =
           Some (h, p, (snd (write_frame rb h p))\<lparr>tail := head (snd (write_frame rb h p))\<rparr>)"
    and "ring_ok RING_BUFFER_SIZE (snd (write_frame rb h p))"
proof -
  define t where "t = tail rb"
  define d where "d = data rb"
  define off where "off = unat t mod 262144"
  define enc where "enc = encodeFrameHeader h"
  define len :: "32 word" where "len = of_nat (length p)"
  have N: "unat RING_BUFFER_SIZE = 262144" by (rule ring_size)
  have vs: "valid_size RING_BUFFER_SIZE" by (rule ring_size)
  have ld: "length d = 262144" using ok by (simp add: ring_ok_def d_def N)
  have hd: "head rb = t" using empty by (simp add: t_def)
  have le: "length enc = 24" by (simp add: enc_def length_encodeFrameHeader)
  have ulen: "unat len = length p" unfolding len_def using fit by (intro unat_len) simp
  have offN: "off < 262144" by (simp add: off_def)
  \<comment> \<open>first write: the header\<close>
  have wa0: "writeAvailable RING_BUFFER_SIZE rb = RING_BUFFER_SIZE"
    by (simp add: writeAvailable_def empty)
  have fit1: "(24::32 word) \<le> writeAvailable RING_BUFFER_SIZE rb"
    unfolding wa0 by (simp add: RING_BUFFER_SIZE_def)
  define rb1 where "rb1 = rb\<lparr>data := ring_put d off enc 24, head := t + 24\<rparr>"
  have w1: "write_rb RING_BUFFER_SIZE rb enc 24 = (True, rb1)"
    using write_rb_data(1) [OF ok fit1, of enc]
    by (simp add: rb1_def d_def off_def hd N)
  have l1: "length (ring_put d off enc 24) = 262144"
    using ring_put_length [of off d 24 enc] offN by (simp add: ld le)
  have ok1: "ring_ok RING_BUFFER_SIZE rb1"
    using vs by (simp add: ring_ok_def rb1_def l1 N t_def RING_BUFFER_SIZE_def)
  \<comment> \<open>second write: the payload\<close>
  have wa1: "writeAvailable RING_BUFFER_SIZE rb1 = RING_BUFFER_SIZE - 24"
    by (simp add: writeAvailable_def rb1_def t_def)
  have "unat (RING_BUFFER_SIZE - 24) = 262120" by (simp add: RING_BUFFER_SIZE_def)
  then have fit2: "len \<le> writeAvailable RING_BUFFER_SIZE rb1"
    using fit unfolding wa1 by (simp add: word_le_nat_alt ulen)
  define off1 where "off1 = (off + 24) mod 262144"
  have off1: "unat (t + 24) mod 262144 = off1"
    using unat_shift_mod [of t 24] by (simp add: off1_def off_def)
  define rb2 where
    "rb2 = rb\<lparr>data := ring_put (ring_put d off enc 24) off1 p (length p), head := t + 24 + len\<rparr>"
  have w2: "write_rb RING_BUFFER_SIZE rb1 p len = (True, rb2)"
    using write_rb_data(1) [OF ok1 fit2, of p]
    by (simp add: rb1_def rb2_def N off1 ulen)
  have wf: "write_frame rb h p = (True, rb2)"
    by (simp add: write_frame_def Let_def enc_def [symmetric] le w1 pb len_def [symmetric] w2)
  have off1N: "off1 < 262144" by (simp add: off1_def)
  have l2: "length (data rb2) = 262144"
    using ring_put_length [of off1 "ring_put d off enc 24" "length p" p] off1N fit
    by (simp add: rb2_def l1)
  have l2r: "length (ring_put (ring_put d off enc 24) off1 p (length p)) = 262144"
    using l2 by (simp add: rb2_def)
  have used2: "head rb2 - tail rb2 = 24 + len" by (simp add: rb2_def t_def)
  have u2: "unat (24 + len) = 24 + length p"
    unfolding len_def using fit by (rule unat_24_plus)
  have ok2: "ring_ok RING_BUFFER_SIZE rb2"
    using vs fit by (simp add: ring_ok_def l2 N used2 word_le_nat_alt u2)
  \<comment> \<open>the consumer: peek and decode the header\<close>
  have fit3: "(24::32 word) \<le> readAvailable rb2"
    by (simp add: readAvailable_def used2 word_le_nat_alt u2)
  have t2: "unat (tail rb2) mod unat RING_BUFFER_SIZE = off"
    by (simp add: rb2_def N off_def t_def)
  have g1: "ring_get (data rb2) off 24 = enc"
  proof -
    have "ring_get (data rb2) off 24 = ring_get (ring_put d off enc 24) off 24"
      using ring_get_put_after [of off "ring_put d off enc 24" 24 "length p" p] offN fit
      by (simp add: rb2_def l1 off1_def)
    also have "\<dots> = take 24 enc"
      using offN by (intro ring_get_put_same) (simp_all add: ld le)
    finally show ?thesis by (simp add: le)
  qed
  have pk: "peek RING_BUFFER_SIZE rb2 24 = Some enc"
    using peek_data(1) [OF ok2 fit3] by (simp add: t2 g1)
  have ra: "unat (readAvailable rb2) = 24 + length p"
    by (simp add: readAvailable_def used2 u2)
  have upb: "unat (payloadBytes h) = length p"
    using ulen by (simp add: pb len_def)
  \<comment> \<open>the consumer: skip the header, read the payload\<close>
  define rb3 where "rb3 = rb2\<lparr>tail := t + 24\<rparr>"
  have sk: "skip rb2 24 = (True, rb3)"
    using fit3 by (simp add: skip_def readAvailable_def not_less rb3_def rb2_def t_def)
  have ok3: "ring_ok RING_BUFFER_SIZE rb3"
    using vs fit by (simp add: ring_ok_def rb3_def l2r N rb2_def word_le_nat_alt ulen)
  have fit4: "len \<le> readAvailable rb3"
    by (simp add: readAvailable_def rb3_def rb2_def)
  have t3: "unat (tail rb3) mod unat RING_BUFFER_SIZE = off1"
    by (simp add: rb3_def N off1)
  have g2: "ring_get (data rb3) off1 (length p) = p"
  proof -
    have "ring_get (data rb3) off1 (length p) = take (length p) p"
      unfolding rb3_def rb2_def using off1N fit
      by (simp add: ring_get_put_same l1)
    then show ?thesis by simp
  qed
  have pk3: "peek RING_BUFFER_SIZE rb3 len = Some p"
    using peek_data(1) [OF ok3 fit4] by (simp add: t3 ulen g2)
  have tl3: "tail rb3 = t + 24" by (simp add: rb3_def)
  have rd: "read RING_BUFFER_SIZE rb3 len = (Some p, rb3\<lparr>tail := t + 24 + len\<rparr>)"
    by (simp add: read_peek pk3 tl3)
  have fin: "rb3\<lparr>tail := t + 24 + len\<rparr> = rb2\<lparr>tail := head rb2\<rparr>"
    by (simp add: rb3_def rb2_def)
  have zero: "\<not> 0 < payloadBytes h \<Longrightarrow> p = [] \<and> rb3 = rb2\<lparr>tail := head rb2\<rparr>"
  proof -
    assume "\<not> 0 < payloadBytes h"
    then have z: "payloadBytes h = 0" by (simp add: word_greater_zero_iff)
    with upb have "length p = 0" by simp
    moreover have "len = 0" using z by (simp add: len_def pb)
    ultimately show ?thesis by (simp add: rb3_def rb2_def)
  qed
  have pbl: "payloadBytes h = len" by (simp add: pb len_def)
  have tf: "take_frame rb2 = Some (h, p, rb2\<lparr>tail := head rb2\<rparr>)"
  proof (cases "0 < len")
    case True
    then show ?thesis
      by (simp add: take_frame_def sizeof_FrameHeader_def pk Let_def enc_def wire_of_encoded
          length_encodeFrameHeader decode_encode ra pbl ulen sk rd fin)
  next
    case False
    with zero have "p = []" "rb3 = rb2\<lparr>tail := head rb2\<rparr>" by (simp_all add: pbl)
    then show ?thesis
      using False ulen
      by (simp add: take_frame_def sizeof_FrameHeader_def pk Let_def enc_def wire_of_encoded
          length_encodeFrameHeader decode_encode ra pbl sk)
  qed
  show "fst (write_frame rb h p)" by (simp add: wf)
  show "head (snd (write_frame rb h p)) = head rb + 24 + of_nat (length p)"
    by (simp add: wf rb2_def hd len_def)
  show "tail (snd (write_frame rb h p)) = tail rb" by (simp add: wf rb2_def)
  show "take_frame (snd (write_frame rb h p)) =
           Some (h, p, (snd (write_frame rb h p))\<lparr>tail := head (snd (write_frame rb h p))\<rparr>)"
    by (simp add: wf tf)
  show "ring_ok RING_BUFFER_SIZE (snd (write_frame rb h p))" by (simp add: wf ok2)
qed

text \<open>
  When the header fits and the payload does not, the frame write reports failure after
  the header has been committed: head has moved by 24.
\<close>

lemma write_frame_torn:
  assumes ok: "ring_ok RING_BUFFER_SIZE rb"
    and hfit: "24 \<le> unat (writeAvailable RING_BUFFER_SIZE rb)"
    and pfull: "unat (writeAvailable RING_BUFFER_SIZE rb) < 24 + unat (payloadBytes h)"
  shows "\<not> fst (write_frame rb h p)"
    and "head (snd (write_frame rb h p)) = head rb + 24"
    and "tail (snd (write_frame rb h p)) = tail rb"
proof -
  define enc where "enc = encodeFrameHeader h"
  have le: "length enc = 24" by (simp add: enc_def length_encodeFrameHeader)
  have fit1: "(24::32 word) \<le> writeAvailable RING_BUFFER_SIZE rb"
    using hfit by (simp add: word_le_nat_alt)
  note w = write_rb_data(1) [OF ok fit1, of enc]
  define rb1 where "rb1 = rb\<lparr>data := ring_put (data rb)
      (unat (head rb) mod unat RING_BUFFER_SIZE) enc (unat (24::32 word)), head := head rb + 24\<rparr>"
  have w1: "write_rb RING_BUFFER_SIZE rb enc 24 = (True, rb1)" using w by (simp add: rb1_def)
  have e: "head rb + 24 - tail rb = (head rb - tail rb) + 24" by simp
  have u: "head rb - tail rb \<le> RING_BUFFER_SIZE" using ok by (simp add: ring_ok_def)
  have wa: "unat (writeAvailable RING_BUFFER_SIZE rb) =
            unat RING_BUFFER_SIZE - unat (head rb - tail rb)"
    unfolding writeAvailable_def using u by (rule unat_sub)
  have ul: "unat (head rb - tail rb) \<le> unat RING_BUFFER_SIZE"
    using u by (simp add: word_le_nat_alt)
  have "unat RING_BUFFER_SIZE < 2 ^ LENGTH(32)" by (rule unsigned_less)
  with hfit wa ul have "unat (head rb - tail rb) + unat (24::32 word) < 2 ^ LENGTH(32)" by simp
  then have u24: "unat ((head rb - tail rb) + 24) = unat (head rb - tail rb) + 24"
    by (simp add: unat_add_lem [THEN iffD1])
  then have "(head rb - tail rb) + 24 \<le> RING_BUFFER_SIZE"
    using hfit wa ul by (simp add: word_le_nat_alt)
  then have "unat (RING_BUFFER_SIZE - ((head rb - tail rb) + 24)) =
             unat RING_BUFFER_SIZE - (unat (head rb - tail rb) + 24)"
    using unat_sub [of "(head rb - tail rb) + 24" RING_BUFFER_SIZE] u24 by simp
  then have "RING_BUFFER_SIZE - (head rb1 - tail rb1) < payloadBytes h"
    using pfull wa hfit by (simp add: rb1_def e word_less_nat_alt)
  then have w2: "write_rb RING_BUFFER_SIZE rb1 p (payloadBytes h) = (False, rb1)"
    by (simp add: write_rb_def)
  have wf: "write_frame rb h p = (False, rb1)"
    by (simp add: write_frame_def Let_def enc_def [symmetric] le w1 w2)
  show "\<not> fst (write_frame rb h p)" by (simp add: wf)
  show "head (snd (write_frame rb h p)) = head rb + 24" by (simp add: wf rb1_def)
  show "tail (snd (write_frame rb h p)) = tail rb" by (simp add: wf rb1_def)
qed

section \<open>Frames queued in a ring\<close>

text \<open>
  The drain step and the frame write in terms of the array: on a ring that satisfies its
  invariant, a frame written behind the frames already there leaves them as they were, and
  it is taken out after them.
\<close>

lemma ring_get_zero: "ring_get d off 0 = []"
  by (simp add: ring_get_def memcpy_out_def Let_def)

lemma take_frame_explicit:
  assumes ok: "ring_ok RING_BUFFER_SIZE rb"
  shows "take_frame rb =
     (if unat (readAvailable rb) < 24 then None
      else if unat (readAvailable rb) <
                24 + unat (payloadBytes (wire_of_bytes (ring_get (data rb) (unat (tail rb) mod 262144) 24)))
      then None
      else Some (wire_of_bytes (ring_get (data rb) (unat (tail rb) mod 262144) 24),
                 ring_get (data rb) ((unat (tail rb) mod 262144 + 24) mod 262144)
                   (unat (payloadBytes (wire_of_bytes (ring_get (data rb) (unat (tail rb) mod 262144) 24)))),
                 rb\<lparr>tail := tail rb + 24 +
                     payloadBytes (wire_of_bytes (ring_get (data rb) (unat (tail rb) mod 262144) 24))\<rparr>))"
proof (cases "unat (readAvailable rb) < 24")
  case True
  then have "head rb - tail rb < 24" by (simp add: readAvailable_def word_less_nat_alt)
  then have "peek RING_BUFFER_SIZE rb 24 = None" by (simp add: peek_def)
  with True show ?thesis by (simp add: take_frame_def sizeof_FrameHeader_def)
next
  case False
  define hd where "hd = wire_of_bytes (ring_get (data rb) (unat (tail rb) mod 262144) 24)"
  define pb where "pb = payloadBytes hd"
  have N: "unat RING_BUFFER_SIZE = 262144" by (rule ring_size)
  have vs: "valid_size RING_BUFFER_SIZE" by (rule ring_size)
  have fit: "(24::32 word) \<le> readAvailable rb" using False by (simp add: word_le_nat_alt)
  have pk: "peek RING_BUFFER_SIZE rb 24 = Some (ring_get (data rb) (unat (tail rb) mod 262144) 24)"
    using peek_data(1) [OF ok fit] by (simp add: N)
  show ?thesis
  proof (cases "unat (readAvailable rb) < 24 + unat pb")
    case True
    then show ?thesis using False
      by (simp add: take_frame_def sizeof_FrameHeader_def pk Let_def length_encodeFrameHeader
          decode_encode hd_def [symmetric] pb_def [symmetric])
  next
    case nb: False
    define rb1 where "rb1 = rb\<lparr>tail := tail rb + 24\<rparr>"
    have nl: "\<not> head rb - tail rb < 24" using fit by (simp add: readAvailable_def not_less)
    have sk: "skip rb 24 = (True, rb1)" using nl by (simp add: skip_def rb1_def)
    have u1: "unat (head rb - (tail rb + 24)) = unat (head rb - tail rb) - 24"
    proof -
      have e: "head rb - (tail rb + 24) = (head rb - tail rb) - 24" by simp
      have "unat ((head rb - tail rb) - 24) = unat (head rb - tail rb) - unat (24::32 word)"
        using fit unfolding readAvailable_def by (rule unat_sub)
      then have s: "unat ((head rb - tail rb) - 24) = unat (head rb - tail rb) - 24" by simp
      show ?thesis by (simp only: e s)
    qed
    have ok1: "ring_ok RING_BUFFER_SIZE rb1"
      using ok used_after_read [of "head rb" "tail rb" RING_BUFFER_SIZE 24] nl
      by (simp add: ring_ok_def rb1_def)
    have fit1: "pb \<le> readAvailable rb1"
      using nb False by (simp add: word_le_nat_alt readAvailable_def rb1_def u1)
    have t1: "unat (tail rb1) mod 262144 = (unat (tail rb) mod 262144 + 24) mod 262144"
      using unat_shift_mod [of "tail rb" 24] by (simp add: rb1_def)
    have pk1: "peek RING_BUFFER_SIZE rb1 pb =
        Some (ring_get (data rb) ((unat (tail rb) mod 262144 + 24) mod 262144) (unat pb))"
      using peek_data(1) [OF ok1 fit1] by (simp add: N t1) (simp add: rb1_def)
    have rd: "read RING_BUFFER_SIZE rb1 pb =
        (Some (ring_get (data rb) ((unat (tail rb) mod 262144 + 24) mod 262144) (unat pb)),
         rb\<lparr>tail := tail rb + 24 + pb\<rparr>)"
      by (simp add: read_peek pk1) (simp add: rb1_def)
    show ?thesis
    proof (cases "0 < pb")
      case True
      then show ?thesis using False nb
        by (simp add: take_frame_def sizeof_FrameHeader_def pk Let_def length_encodeFrameHeader
            decode_encode hd_def [symmetric] pb_def [symmetric] sk rd)
    next
      case z: False
      then have z0: "pb = 0" by (simp add: word_greater_zero_iff)
      show ?thesis using False nb z
        by (simp add: take_frame_def sizeof_FrameHeader_def pk Let_def length_encodeFrameHeader
            decode_encode hd_def [symmetric] pb_def [symmetric] sk)
          (simp add: z0 ring_get_zero rb1_def)
    qed
  qed
qed


lemma unat_head_mod:
  "unat (head rb) mod 262144 = (unat (tail rb) mod 262144 + unat (head rb - tail rb)) mod 262144"
proof -
  have "head rb = tail rb + of_nat (unat (head rb - tail rb))" by simp
  then have "unat (head rb) mod 262144 = unat (tail rb + of_nat (unat (head rb - tail rb))) mod 262144"
    by (simp only:)
  then show ?thesis by (simp only: unat_shift_mod)
qed

lemma ring_used:
  assumes ok: "ring_ok RING_BUFFER_SIZE rb"
  shows "unat (readAvailable rb) + unat (writeAvailable RING_BUFFER_SIZE rb) = 262144"
    and "length (data rb) = 262144"
proof -
  have "balanced RING_BUFFER_SIZE rb" using ok by (simp add: balanced_iff ring_ok_def)
  then show "unat (readAvailable rb) + unat (writeAvailable RING_BUFFER_SIZE rb) = 262144"
    by (simp add: balanced_def capacity_def ring_size)
  show "length (data rb) = 262144" using ok by (simp add: ring_ok_def ring_size)
qed

lemma write_frame_explicit:
  assumes ok: "ring_ok RING_BUFFER_SIZE rb"
    and pb: "payloadBytes h = of_nat (length p)"
    and fit: "24 + length p \<le> unat (writeAvailable RING_BUFFER_SIZE rb)"
  shows "write_frame rb h p =
     (True, rb\<lparr>data := ring_put (ring_put (data rb) (unat (head rb) mod 262144)
                                    (encodeFrameHeader h) 24)
                          ((unat (head rb) mod 262144 + 24) mod 262144) p (length p),
                head := head rb + 24 + of_nat (length p)\<rparr>)"
proof -
  define d where "d = data rb"
  define off where "off = unat (head rb) mod 262144"
  define enc where "enc = encodeFrameHeader h"
  define len :: "32 word" where "len = of_nat (length p)"
  have N: "unat RING_BUFFER_SIZE = 262144" by (rule ring_size)
  note u = ring_used [OF ok]
  have ld: "length d = 262144" using u(2) by (simp add: d_def)
  have le: "length enc = 24" by (simp add: enc_def length_encodeFrameHeader)
  have small: "24 + length p \<le> 262144" using fit u(1) by simp
  have ulen: "unat len = length p" unfolding len_def using small by (intro unat_len) simp
  have offN: "off < 262144" by (simp add: off_def)
  have fit1: "(24::32 word) \<le> writeAvailable RING_BUFFER_SIZE rb"
    using fit by (simp add: word_le_nat_alt)
  define rb1 where "rb1 = rb\<lparr>data := ring_put d off enc 24, head := head rb + 24\<rparr>"
  have w1: "write_rb RING_BUFFER_SIZE rb enc 24 = (True, rb1)"
    using write_rb_data(1) [OF ok fit1, of enc]
    by (simp add: rb1_def d_def off_def N)
  have "ring_ok RING_BUFFER_SIZE (snd (write_rb RING_BUFFER_SIZE rb enc 24))"
    using ok by (rule ring_ok_write_rb) (simp add: le)
  then have ok1: "ring_ok RING_BUFFER_SIZE rb1" by (simp add: w1)
  have wa1: "unat (writeAvailable RING_BUFFER_SIZE rb1) =
             unat (writeAvailable RING_BUFFER_SIZE rb) - 24"
  proof -
    have e: "writeAvailable RING_BUFFER_SIZE rb1 = writeAvailable RING_BUFFER_SIZE rb - 24"
      by (simp add: writeAvailable_def rb1_def)
    have "unat (writeAvailable RING_BUFFER_SIZE rb - 24) =
          unat (writeAvailable RING_BUFFER_SIZE rb) - unat (24::32 word)"
      using fit1 by (rule unat_sub)
    then have s: "unat (writeAvailable RING_BUFFER_SIZE rb - 24) =
          unat (writeAvailable RING_BUFFER_SIZE rb) - 24" by simp
    show ?thesis by (simp only: e s)
  qed
  have fit2: "len \<le> writeAvailable RING_BUFFER_SIZE rb1"
    using fit by (simp add: word_le_nat_alt ulen wa1)
  have off1: "unat (head rb + 24) mod 262144 = (off + 24) mod 262144"
    using unat_shift_mod [of "head rb" 24] by (simp add: off_def)
  have w2: "write_rb RING_BUFFER_SIZE rb1 p len =
      (True, rb\<lparr>data := ring_put (ring_put d off enc 24) ((off + 24) mod 262144) p (length p),
                 head := head rb + 24 + len\<rparr>)"
    using write_rb_data(1) [OF ok1 fit2, of p]
    by (simp add: rb1_def N off1 ulen)
  show ?thesis
    unfolding d_def [symmetric] off_def [symmetric] enc_def [symmetric] len_def [symmetric]
    by (simp add: write_frame_def Let_def enc_def [symmetric] le w1 pb len_def [symmetric] w2)
qed

lemma write_frame_keeps:
  assumes ok: "ring_ok RING_BUFFER_SIZE rb"
    and fit: "24 + length p \<le> unat (writeAvailable RING_BUFFER_SIZE rb)"
    and i: "i < unat (readAvailable rb)"
  shows "ring_put (ring_put (data rb) (unat (head rb) mod 262144) (encodeFrameHeader h) 24)
           ((unat (head rb) mod 262144 + 24) mod 262144) p (length p)
           ! ((unat (tail rb) mod 262144 + i) mod 262144)
         = data rb ! ((unat (tail rb) mod 262144 + i) mod 262144)"
proof -
  define d where "d = data rb"
  define toff where "toff = unat (tail rb) mod 262144"
  define used where "used = unat (readAvailable rb)"
  define enc where "enc = encodeFrameHeader h"
  define off where "off = unat (head rb) mod 262144"
  note u = ring_used [OF ok]
  have ld: "length d = 262144" using u(2) by (simp add: d_def)
  have le: "length enc = 24" by (simp add: enc_def length_encodeFrameHeader)
  have room: "used + 24 + length p \<le> 262144" using fit u(1) by (simp add: used_def)
  have iu: "i < used" using i by (simp add: used_def)
  have off: "off = (toff + used) mod 262144"
    using unat_head_mod [of rb] by (simp add: off_def toff_def used_def readAvailable_def)
  have offN: "off < 262144" by (simp add: off_def)
  have off1N: "(off + 24) mod 262144 < 262144" by simp
  define j where "j = (toff + i) mod 262144"
  have jN: "j < 262144" by (simp add: j_def)
  have l1: "length (ring_put d off enc 24) = 262144"
    using ring_put_length [of off d 24 enc] offN by (simp add: ld le)
  have ne1: "\<forall>k<24. j \<noteq> (off + k) mod length d"
  proof (intro allI impI)
    fix k :: nat
    assume k: "k < 24"
    have "(toff + i) mod 262144 \<noteq> (toff + used + k) mod 262144"
      using iu k room by (intro mod_shift_neq) simp_all
    then show "j \<noteq> (off + k) mod length d"
      by (simp add: j_def off ld mod_add_left_eq)
  qed
  have ne2: "\<forall>k<length p. j \<noteq> ((off + 24) mod 262144 + k) mod length (ring_put d off enc 24)"
  proof (intro allI impI)
    fix k :: nat
    assume k: "k < length p"
    have "(toff + i) mod 262144 \<noteq> (toff + used + 24 + k) mod 262144"
      using iu k room by (intro mod_shift_neq) simp_all
    moreover have "((off + 24) mod 262144 + k) mod 262144 = (toff + used + 24 + k) mod 262144"
      by (simp add: off mod_add_left_eq)
    ultimately show "j \<noteq> ((off + 24) mod 262144 + k) mod length (ring_put d off enc 24)"
      by (simp add: j_def l1)
  qed
  have "ring_put (ring_put d off enc 24) ((off + 24) mod 262144) p (length p) ! j =
        ring_put d off enc 24 ! j"
    using off1N room jN ne2 by (intro ring_put_other) (simp_all add: l1)
  also have "\<dots> = d ! j"
    using offN jN ne1 by (intro ring_put_other) (simp_all add: ld le)
  finally show ?thesis
    by (simp add: d_def off_def enc_def j_def toff_def)
qed

lemma ring_get_cong:
  assumes "length d = length d'" "off < length d" "L \<le> length d"
    and "\<And>i. i < L \<Longrightarrow> d' ! ((off + i) mod length d) = d ! ((off + i) mod length d)"
  shows "ring_get d' off L = ring_get d off L"
proof (rule nth_equalityI)
  show "length (ring_get d' off L) = length (ring_get d off L)"
    using assms by (simp add: ring_get_length)
  fix i
  assume "i < length (ring_get d' off L)"
  then have i: "i < L" using assms by (simp add: ring_get_length)
  show "ring_get d' off L ! i = ring_get d off L ! i"
    using assms i by (simp add: ring_get_nth)
qed


lemma ring_ok_write_frame:
  assumes ok: "ring_ok RING_BUFFER_SIZE rb" and pb: "unat (payloadBytes h) \<le> length p"
  shows "ring_ok RING_BUFFER_SIZE (snd (write_frame rb h p))"
proof -
  obtain b rb1 where w1: "write_rb RING_BUFFER_SIZE rb (encodeFrameHeader h) 24 = (b, rb1)"
    by (cases "write_rb RING_BUFFER_SIZE rb (encodeFrameHeader h) 24") auto
  have "ring_ok RING_BUFFER_SIZE (snd (write_rb RING_BUFFER_SIZE rb (encodeFrameHeader h) 24))"
    using ok by (rule ring_ok_write_rb) (simp add: length_encodeFrameHeader)
  then have ok1: "ring_ok RING_BUFFER_SIZE rb1" by (simp add: w1)
  have ok2: "ring_ok RING_BUFFER_SIZE (snd (write_rb RING_BUFFER_SIZE rb1 p (payloadBytes h)))"
    using ok1 pb by (rule ring_ok_write_rb)
  show ?thesis
    using ok1 ok2 by (cases b) (simp_all add: write_frame_def Let_def length_encodeFrameHeader w1)
qed

lemma take_frame_fields:
  assumes ok: "ring_ok RING_BUFFER_SIZE rb" and tf: "take_frame rb = Some (h0, p0, rb0)"
  shows "h0 = wire_of_bytes (ring_get (data rb) (unat (tail rb) mod 262144) 24)"
    and "p0 = ring_get (data rb) ((unat (tail rb) mod 262144 + 24) mod 262144) (unat (payloadBytes h0))"
    and "rb0 = rb\<lparr>tail := tail rb + 24 + payloadBytes h0\<rparr>"
    and "24 + unat (payloadBytes h0) \<le> unat (readAvailable rb)"
  using tf by (auto simp: take_frame_explicit [OF ok] split: if_splits)

lemma take_frame_rest:
  assumes ok: "ring_ok RING_BUFFER_SIZE rb" and tf: "take_frame rb = Some (h0, p0, rb0)"
  shows "ring_ok RING_BUFFER_SIZE rb0"
    and "unat (readAvailable rb0) = unat (readAvailable rb) - (24 + unat (payloadBytes h0))"
    and "unat (writeAvailable RING_BUFFER_SIZE rb) \<le> unat (writeAvailable RING_BUFFER_SIZE rb0)"
    and "head rb0 = head rb" and "data rb0 = data rb"
proof -
  note f = take_frame_fields [OF ok tf]
  note u = ring_used [OF ok]
  define n :: "32 word" where "n = 24 + payloadBytes h0"
  have un: "unat n = 24 + unat (payloadBytes h0)"
  proof -
    have "unat (24::32 word) + unat (payloadBytes h0) < 2 ^ LENGTH(32)" using f(4) u(1) by simp
    then have "unat ((24::32 word) + payloadBytes h0) = unat (24::32 word) + unat (payloadBytes h0)"
      by (simp only: unat_add_lem)
    then show ?thesis by (simp add: n_def)
  qed
  have rb0: "rb0 = rb\<lparr>tail := tail rb + n\<rparr>" using f(3) by (simp add: n_def add.assoc)
  have le: "n \<le> head rb - tail rb"
    using f(4) by (simp add: word_le_nat_alt un readAvailable_def)
  then have nl: "\<not> head rb - tail rb < n" by (simp add: not_less)
  show ok0: "ring_ok RING_BUFFER_SIZE rb0"
    using ok used_after_read [of "head rb" "tail rb" RING_BUFFER_SIZE n] nl
    by (simp add: ring_ok_def rb0)
  have e: "head rb - (tail rb + n) = (head rb - tail rb) - n" by simp
  have "unat ((head rb - tail rb) - n) = unat (head rb - tail rb) - unat n"
    using le by (rule unat_sub)
  then show r0: "unat (readAvailable rb0) = unat (readAvailable rb) - (24 + unat (payloadBytes h0))"
    by (simp add: readAvailable_def rb0 e un)
  show "unat (writeAvailable RING_BUFFER_SIZE rb) \<le> unat (writeAvailable RING_BUFFER_SIZE rb0)"
    using ring_used(1) [OF ok0] u(1) r0 by simp
  show "head rb0 = head rb" "data rb0 = data rb" by (simp_all add: rb0)
qed

lemma take_frame_write_frame:
  assumes ok: "ring_ok RING_BUFFER_SIZE rb"
    and pb: "payloadBytes h = of_nat (length p)"
    and fit: "24 + length p \<le> unat (writeAvailable RING_BUFFER_SIZE rb)"
    and tf: "take_frame rb = Some (h0, p0, rb0)"
  shows "take_frame (snd (write_frame rb h p)) = Some (h0, p0, snd (write_frame rb0 h p))"
proof -
  note f = take_frame_fields [OF ok tf]
  note r = take_frame_rest [OF ok tf]
  note u = ring_used [OF ok]
  define d where "d = data rb"
  define toff where "toff = unat (tail rb) mod 262144"
  define D where "D = ring_put (ring_put d (unat (head rb) mod 262144) (encodeFrameHeader h) 24)
                        ((unat (head rb) mod 262144 + 24) mod 262144) p (length p)"
  define W where "W = rb\<lparr>data := D, head := head rb + 24 + of_nat (length p)\<rparr>"
  have small: "24 + length p \<le> 262144" using fit u(1) by simp
  have ulen: "unat (of_nat (length p) :: 32 word) = length p" using small by (intro unat_len) simp
  have wf: "write_frame rb h p = (True, W)"
    using write_frame_explicit [OF ok pb fit] by (simp add: W_def D_def d_def)
  have fit0: "24 + length p \<le> unat (writeAvailable RING_BUFFER_SIZE rb0)"
    using fit r(3) by simp
  have wf0: "write_frame rb0 h p = (True, W\<lparr>tail := tail rb + 24 + payloadBytes h0\<rparr>)"
    using write_frame_explicit [OF r(1) pb fit0]
    by (simp add: r(4) r(5) W_def D_def d_def) (simp add: f(3))
  have "ring_ok RING_BUFFER_SIZE (snd (write_frame rb h p))"
    using ok by (rule ring_ok_write_frame) (simp add: pb ulen)
  then have okW: "ring_ok RING_BUFFER_SIZE W" by (simp add: wf)
  have ld: "length d = 262144" using u(2) by (simp add: d_def)
  have lD: "length D = 262144" using ring_used(2) [OF okW] by (simp add: W_def)
  have raW: "unat (readAvailable W) = unat (readAvailable rb) + (24 + length p)"
  proof -
    have e: "readAvailable W = readAvailable rb + (24 + of_nat (length p))"
      by (simp add: readAvailable_def W_def)
    have "unat (readAvailable rb) + unat (24 + of_nat (length p) :: 32 word) < 2 ^ LENGTH(32)"
      using u(1) small by (simp add: unat_24_plus)
    then have "unat (readAvailable rb + (24 + of_nat (length p))) =
               unat (readAvailable rb) + unat (24 + of_nat (length p) :: 32 word)"
      by (simp only: unat_add_lem)
    then show ?thesis using small by (simp add: e unat_24_plus)
  qed
  have keep: "D ! ((toff + i) mod 262144) = d ! ((toff + i) mod 262144)"
    if "i < unat (readAvailable rb)" for i
    using write_frame_keeps [OF ok fit that, of h] by (simp add: D_def d_def toff_def)
  have toffN: "toff < 262144" by (simp add: toff_def)
  have g1: "ring_get D toff 24 = ring_get d toff 24"
  proof (rule ring_get_cong)
    show "length d = length D" by (simp add: ld lD)
    show "toff < length d" using toffN by (simp add: ld)
    show "24 \<le> length d" by (simp add: ld)
    fix i :: nat
    assume "i < 24"
    then have "i < unat (readAvailable rb)" using f(4) by simp
    then show "D ! ((toff + i) mod length d) = d ! ((toff + i) mod length d)"
      using keep by (simp add: ld)
  qed
  have g2: "ring_get D ((toff + 24) mod 262144) (unat (payloadBytes h0)) =
            ring_get d ((toff + 24) mod 262144) (unat (payloadBytes h0))"
  proof (rule ring_get_cong)
    show "length d = length D" by (simp add: ld lD)
    show "(toff + 24) mod 262144 < length d" by (simp add: ld)
    show "unat (payloadBytes h0) \<le> length d" using f(4) u(1) by (simp add: ld)
    fix i :: nat
    assume "i < unat (payloadBytes h0)"
    then have "24 + i < unat (readAvailable rb)" using f(4) by simp
    then have "D ! ((toff + (24 + i)) mod 262144) = d ! ((toff + (24 + i)) mod 262144)"
      by (rule keep)
    then show "D ! (((toff + 24) mod 262144 + i) mod length d) =
               d ! (((toff + 24) mod 262144 + i) mod length d)"
      by (simp add: ld mod_add_left_eq add.assoc)
  qed
  have h0: "wire_of_bytes (ring_get d toff 24) = h0" using f(1) by (simp add: d_def toff_def)
  have p0: "ring_get d ((toff + 24) mod 262144) (unat (payloadBytes h0)) = p0"
    using f(2) by (simp add: d_def toff_def)
  have tW: "tail W = tail rb" "data W = D" by (simp_all add: W_def)
  have "take_frame W = Some (h0, p0, W\<lparr>tail := tail rb + 24 + payloadBytes h0\<rparr>)"
    using f(4)
    by (simp add: take_frame_explicit [OF okW] tW toff_def [symmetric] g1 h0 g2 p0 raW)
  then show ?thesis by (simp add: wf wf0)
qed

lemma take_frame_empty:
  assumes "head rb = tail rb"
  shows "take_frame rb = None"
proof -
  have "peek RING_BUFFER_SIZE rb 24 = None" using assms by (simp add: peek_def)
  then show ?thesis by (simp add: take_frame_def sizeof_FrameHeader_def)
qed

lemma queued_append:
  assumes ok: "ring_ok RING_BUFFER_SIZE rb" and q: "queued rb fs"
    and pb: "payloadBytes h = of_nat (length p)"
    and fit: "24 + length p \<le> unat (writeAvailable RING_BUFFER_SIZE rb)"
  shows "queued (snd (write_frame rb h p)) (fs @ [(h, p)])"
  using ok q fit
proof (induction fs arbitrary: rb)
  case Nil
  then have e: "head rb = tail rb" by simp
  have small: "24 + length p \<le> 262144" using Nil.prems(3) ring_used(1) [OF Nil.prems(1)] by simp
  note t = frame_transport [OF Nil.prems(1) e pb small]
  show ?case by (simp add: t(4))
next
  case (Cons f fs)
  from Cons.prems(2) obtain rb0 where tf: "take_frame rb = Some (fst f, snd f, rb0)"
    and q0: "queued rb0 fs"
    by (auto split: option.splits)
  note r = take_frame_rest [OF Cons.prems(1) tf]
  have fit0: "24 + length p \<le> unat (writeAvailable RING_BUFFER_SIZE rb0)"
    using Cons.prems(3) r(3) by simp
  have "queued (snd (write_frame rb0 h p)) (fs @ [(h, p)])"
    using r(1) q0 fit0 by (rule Cons.IH)
  then show ?case
    by (simp add: take_frame_write_frame [OF Cons.prems(1) pb Cons.prems(3) tf])
qed

section \<open>The example states, evaluated\<close>

lemma connect_attempts_first:
  "0 < k \<Longrightarrow> connectClientSocket i \<ge> 0 \<Longrightarrow>
   connect_attempts connectClientSocket i k fd = connectClientSocket i"
  by (cases k) (simp_all add: Let_def)

lemma connect_example:
  "Client_connect Client_init PROTOCOL_VERSION 200 (\<lambda>i. 3) 4 (Some zero_region) 2 (1, 1) =
     (True, connected_client, [SendFd 3 PROTOCOL_VERSION 4, SpawnThread])"
  by (simp add: Client_connect_def Client_init_def connected_client_def zero_region_def
      reset_def initial_def Let_def connect_attempts_first)

lemma initial_fields: "head (initial d) = 0" "tail (initial d) = 0" "data (initial d) = d"
  by (simp_all add: initial_def)

lemma write_frame_too_big:
  "write_frame (initial (replicate 262144 0)) (request_header 1 1 7 (replicate 262144 0))
     (replicate 262144 0) =
   (False, \<lparr>head = 24, tail = 0,
            data = [1,0,1,0, 1,0,0,0, 7,0,0,0, 1,0,0,0, 0,0,4,0, 0,0,0,0] @ replicate 262120 0\<rparr>)"
  by (simp add: write_frame_def request_header_def FrameHeader_zero_def encodeFrameHeader_def
      put_le16_def put_le32_def write_rb_def initial_def RING_BUFFER_SIZE_def Let_def memcpy_def
      PROTOCOL_VERSION_def FRAME_REQUEST_def)

lemma write_frame_small:
  "write_frame (initial (replicate 262144 0)) (request_header 1 1 7 [41,0,0,0]) [41,0,0,0] =
   (True, \<lparr>head = 28, tail = 0,
           data = [1,0,1,0, 1,0,0,0, 7,0,0,0, 1,0,0,0, 4,0,0,0, 0,0,0,0, 41,0,0,0]
                  @ replicate 262116 0\<rparr>)"
  by (simp add: write_frame_def request_header_def FrameHeader_zero_def encodeFrameHeader_def
      put_le16_def put_le32_def write_rb_def initial_def RING_BUFFER_SIZE_def Let_def memcpy_def
      PROTOCOL_VERSION_def FRAME_REQUEST_def)

lemma write_frame_notify:
  "write_frame (initial (replicate 262144 0)) (notify_header 1 99 [123,0,0,0]) [123,0,0,0] =
   (True, \<lparr>head = 28, tail = 0,
           data = [1,0,4,0, 1,0,0,0, 99,0,0,0, 0,0,0,0, 4,0,0,0, 0,0,0,0, 123,0,0,0]
                  @ replicate 262116 0\<rparr>)"
  by (simp add: write_frame_def notify_header_def FrameHeader_zero_def encodeFrameHeader_def
      put_le16_def put_le32_def write_rb_def initial_def RING_BUFFER_SIZE_def Let_def memcpy_def
      PROTOCOL_VERSION_def FRAME_NOTIFY_def)

lemma call_begin_example:
  "call_begin connected_client 1 7 [41,0,0,0] 1 =
     (Inr (1, 0),
      \<lparr>m_socketFd = 3, m_shmFd = 4,
       m_region = Some \<lparr>clientToServer =
          \<lparr>head = 28, tail = 0,
           data = [1,0,1,0, 1,0,0,0, 7,0,0,0, 1,0,0,0, 4,0,0,0, 0,0,0,0, 41,0,0,0]
                  @ replicate 262116 0\<rparr>,
          serverToClient = initial (replicate 262144 0)\<rparr>,
       m_running = True, m_nextSeq = 2, m_pending = [(1, 0)], m_notifyHandler = False,
       heap = [\<lparr>done_flag = False, status = RPC_SUCCESS, response = []\<rparr>]\<rparr>,
      [Send 3 [1]])"
  by (simp add: call_begin_def connected_client_def zero_region_def write_frame_small Let_def
      signal_event_def)

lemma call_begin_unsignalled:
  "call_begin connected_client 1 7 [41,0,0,0] 0 =
     (Inl RPC_ERR_DISCONNECTED, fst (snd (call_begin connected_client 1 7 [41,0,0,0] 1)),
      [Send 3 [1]])"
  by (simp add: call_begin_def connected_client_def zero_region_def write_frame_small Let_def
      signal_event_def)

lemma torn_write:
  "write_frame (initial (replicate 262144 0)) (request_header 1 1 7 (replicate 262144 0))
     (replicate 262144 0) = (False, torn_ring)"
  by (simp add: write_frame_too_big torn_ring_def)

lemma torn_peek:
  "peek RING_BUFFER_SIZE torn_ring 24
     = Some (encodeFrameHeader (request_header 1 1 7 (replicate 262144 0)))"
  by (simp add: torn_ring_def peek_def RING_BUFFER_SIZE_def Let_def memcpy_out_def
      request_header_def FrameHeader_zero_def encodeFrameHeader_def put_le16_def put_le32_def
      PROTOCOL_VERSION_def FRAME_REQUEST_def)

lemma torn_readAvailable: "readAvailable torn_ring = 24"
  by (simp add: torn_ring_def readAvailable_def)

lemma torn_take_frame: "take_frame torn_ring = None"
proof -
  have "unat (payloadBytes (request_header 1 1 7 (replicate 262144 0))) = 262144"
    by (simp add: request_header_def FrameHeader_zero_def)
  then show ?thesis
    by (simp add: take_frame_def sizeof_FrameHeader_def torn_peek Let_def wire_of_encoded
        length_encodeFrameHeader decode_encode torn_readAvailable)
qed

section \<open>Client::call: the ring-full return\<close>

lemma status_distinct:
  "RPC_ERR_RING_FULL \<noteq> RPC_ERR_DISCONNECTED" "RPC_ERR_DISCONNECTED \<noteq> RPC_ERR_RING_FULL"
  by (simp_all add: RPC_ERR_RING_FULL_def RPC_ERR_DISCONNECTED_def)

lemma call_begin_ring_full:
  assumes "m_running c" "m_region c = Some r"
    and "\<not> fst (write_frame (clientToServer r) (request_header (m_nextSeq c) sid mid request) request)"
  shows "fst (call_begin c sid mid request sig) = Inl RPC_ERR_RING_FULL"
  using assms by (auto simp: call_begin_def Let_def split: prod.splits)

lemma call_begin_ring_full_pending:
  assumes "fst (call_begin c sid mid request sig) = Inl RPC_ERR_RING_FULL"
  shows "m_pending (fst (snd (call_begin c sid mid request sig))) = m_pending c"
    and "heap (fst (snd (call_begin c sid mid request sig))) = heap c"
    and "snd (snd (call_begin c sid mid request sig)) = []"
  using assms
  by (auto simp: call_begin_def Let_def status_distinct split: option.splits prod.splits if_splits bool.splits)

text \<open>
  C6: when the frame write of \<open>Client::call\<close> fails on a running, mapped client, \<open>call\<close>
  returns \<open>RPC_ERR_RING_FULL\<close>; and whenever \<open>call\<close> returns \<open>RPC_ERR_RING_FULL\<close>, the
  pending table and the store of \<open>PendingCall\<close> objects are exactly as before the call,
  and no signal byte was sent.
\<close>

theorem C6_ring_full_no_pending:
  "(m_running c \<and> m_region c = Some r \<and>
    \<not> fst (write_frame (clientToServer r) (request_header (m_nextSeq c) sid mid request) request)
      \<longrightarrow> fst (call_begin c sid mid request sig) = Inl RPC_ERR_RING_FULL) \<and>
   (fst (call_begin c sid mid request sig) = Inl RPC_ERR_RING_FULL \<longrightarrow>
      m_pending (fst (snd (call_begin c sid mid request sig))) = m_pending c \<and>
      heap (fst (snd (call_begin c sid mid request sig))) = heap c \<and>
      snd (snd (call_begin c sid mid request sig)) = [])"
proof (intro conjI impI)
  assume "m_running c \<and> m_region c = Some r \<and>
    \<not> fst (write_frame (clientToServer r) (request_header (m_nextSeq c) sid mid request) request)"
  then show "fst (call_begin c sid mid request sig) = Inl RPC_ERR_RING_FULL"
    by (simp add: call_begin_ring_full)
next
  assume a: "fst (call_begin c sid mid request sig) = Inl RPC_ERR_RING_FULL"
  show "m_pending (fst (snd (call_begin c sid mid request sig))) = m_pending c"
    using a by (rule call_begin_ring_full_pending)
  show "heap (fst (snd (call_begin c sid mid request sig))) = heap c"
    using a by (rule call_begin_ring_full_pending)
  show "snd (snd (call_begin c sid mid request sig)) = []"
    using a by (rule call_begin_ring_full_pending)
qed

theorem C6_ring_full_no_pending_witness:
  "m_running connected_client \<and> m_region connected_client = Some zero_region \<and>
   \<not> fst (write_frame (clientToServer zero_region)
            (request_header (m_nextSeq connected_client) 1 7 (replicate 262144 0))
            (replicate 262144 0)) \<and>
   fst (call_begin connected_client 1 7 (replicate 262144 0) 1) = Inl RPC_ERR_RING_FULL \<and>
   m_pending (fst (snd (call_begin connected_client 1 7 (replicate 262144 0) 1))) = []"
  using C6_ring_full_no_pending [of connected_client zero_region 1 7 "replicate 262144 0" 1]
  by (simp add: connected_client_def zero_region_def write_frame_too_big)

section \<open>Client::call: the failed signal\<close>

lemma call_begin_signal_fail:
  assumes "m_running c" "m_region c = Some r"
    and "fst (write_frame (clientToServer r) (request_header (m_nextSeq c) sid mid request) request)"
    and "sig \<le> 0"
  shows "fst (call_begin c sid mid request sig) = Inl RPC_ERR_DISCONNECTED"
    and "m_pending (fst (snd (call_begin c sid mid request sig))) =
           AList.update (m_nextSeq c) (length (heap c)) (m_pending c)"
    and "heap (fst (snd (call_begin c sid mid request sig))) =
           heap c @ [\<lparr>done_flag = False, status = RPC_SUCCESS, response = []\<rparr>]"
    and "m_running (fst (snd (call_begin c sid mid request sig)))"
  using assms by (auto simp: call_begin_def Let_def split: prod.splits)

lemma call_begin_waiting:
  assumes "m_running c" "m_region c = Some r"
    and "fst (write_frame (clientToServer r) (request_header (m_nextSeq c) sid mid request) request)"
    and "sig > 0"
  shows "fst (call_begin c sid mid request sig) = Inr (m_nextSeq c, length (heap c))"
    and "m_pending (fst (snd (call_begin c sid mid request sig))) =
           AList.update (m_nextSeq c) (length (heap c)) (m_pending c)"
    and "heap (fst (snd (call_begin c sid mid request sig))) =
           heap c @ [\<lparr>done_flag = False, status = RPC_SUCCESS, response = []\<rparr>]"
  using assms by (auto simp: call_begin_def Let_def split: prod.splits)

lemma length_fail_all: "length (fail_all st t h) = length h"
  unfolding fail_all_def by (induction t arbitrary: h) (auto split: prod.splits)

lemma nth_fail_all:
  "p < length h \<Longrightarrow>
   fail_all st t h ! p =
     (if p \<in> snd ` set t then (h ! p)\<lparr>status := st, done_flag := True\<rparr> else h ! p)"
  unfolding fail_all_def
proof (induction t arbitrary: h)
  case Nil
  then show ?case by simp
next
  case (Cons a t)
  obtain k q where a: "a = (k, q)" by (cases a)
  let ?h1 = "h[q := (h ! q)\<lparr>status := st, done_flag := True\<rparr>]"
  have l: "p < length ?h1" using Cons.prems by simp
  show ?case
  proof (cases "p = q")
    case True
    then show ?thesis using Cons.IH [OF l] Cons.prems by (auto simp: a)
  next
    case False
    then show ?thesis using Cons.IH [OF l] Cons.prems by (auto simp: a)
  qed
qed

lemma receiverLoop_exit_pending: "m_pending (receiverLoop_exit c) = m_pending c"
  by (simp add: receiverLoop_exit_def)

lemma receiverLoop_exit_heap:
  assumes "map_of (m_pending c) k = Some p" "p < length (heap c)"
  shows "heap (receiverLoop_exit c) ! p = (heap c ! p)\<lparr>status := RPC_ERR_DISCONNECTED, done_flag := True\<rparr>"
proof -
  from assms(1) have "(k, p) \<in> set (m_pending c)" by (rule map_of_SomeD)
  then have "p \<in> snd ` set (m_pending c)" by force
  then show ?thesis using assms(2) by (simp add: receiverLoop_exit_def nth_fail_all)
qed

lemma disconnect_running_pending:
  "m_running c \<Longrightarrow> m_pending (fst (Client_disconnect c)) = []"
  by (simp add: Client_disconnect_def Let_def release_def receiverLoop_exit_def split: prod.splits)

text \<open>
  C10, as amended: if the signal-byte send of \<open>Client::call\<close> fails after the \<open>PendingCall\<close>
  was inserted, \<open>call\<close> returns \<open>RPC_ERR_DISCONNECTED\<close> and the entry for the allocated
  \<open>seq\<close> is still in the pending table. The exit code of the receiver loop leaves that
  entry in the table (it only sets its status to \<open>RPC_ERR_DISCONNECTED\<close> and its \<open>done\<close>
  flag); \<open>disconnect\<close> on the running client empties the table.
\<close>

theorem C10_signal_failure_keeps_entry:
  "m_running c \<and> m_region c = Some r \<and>
   fst (write_frame (clientToServer r) (request_header (m_nextSeq c) sid mid request) request) \<and>
   sig \<le> 0 \<longrightarrow>
     (case call_begin c sid mid request sig of
        (res, c', ev) \<Rightarrow>
          res = Inl RPC_ERR_DISCONNECTED \<and>
          map_of (m_pending c') (m_nextSeq c) = Some (length (heap c)) \<and>
          map_of (m_pending (receiverLoop_exit c')) (m_nextSeq c) = Some (length (heap c)) \<and>
          status (heap (receiverLoop_exit c') ! length (heap c)) = RPC_ERR_DISCONNECTED \<and>
          done_flag (heap (receiverLoop_exit c') ! length (heap c)) \<and>
          m_pending (fst (Client_disconnect c')) = [])"
proof
  assume a: "m_running c \<and> m_region c = Some r \<and>
   fst (write_frame (clientToServer r) (request_header (m_nextSeq c) sid mid request) request) \<and>
   sig \<le> 0"
  then have r: "m_running c" and g: "m_region c = Some r"
    and w: "fst (write_frame (clientToServer r) (request_header (m_nextSeq c) sid mid request) request)"
    and s: "sig \<le> 0" by simp_all
  note f = call_begin_signal_fail [OF r g w s]
  obtain res c' ev where e: "call_begin c sid mid request sig = (res, c', ev)"
    by (cases "call_begin c sid mid request sig") auto
  have res: "res = Inl RPC_ERR_DISCONNECTED" using f(1) e by simp
  have pend: "m_pending c' = AList.update (m_nextSeq c) (length (heap c)) (m_pending c)"
    using f(2) e by simp
  have hp: "heap c' = heap c @ [\<lparr>done_flag = False, status = RPC_SUCCESS, response = []\<rparr>]"
    using f(3) e by simp
  have run: "m_running c'" using f(4) e by simp
  have m: "map_of (m_pending c') (m_nextSeq c) = Some (length (heap c))"
    by (simp add: pend update_conv')
  have lt: "length (heap c) < length (heap c')" by (simp add: hp)
  note x = receiverLoop_exit_heap [OF m lt]
  show "case call_begin c sid mid request sig of
        (res, c', ev) \<Rightarrow>
          res = Inl RPC_ERR_DISCONNECTED \<and>
          map_of (m_pending c') (m_nextSeq c) = Some (length (heap c)) \<and>
          map_of (m_pending (receiverLoop_exit c')) (m_nextSeq c) = Some (length (heap c)) \<and>
          status (heap (receiverLoop_exit c') ! length (heap c)) = RPC_ERR_DISCONNECTED \<and>
          done_flag (heap (receiverLoop_exit c') ! length (heap c)) \<and>
          m_pending (fst (Client_disconnect c')) = []"
    unfolding e using res m x run
    by (simp add: receiverLoop_exit_pending disconnect_running_pending)
qed

theorem C10_signal_failure_keeps_entry_witness:
  "m_running connected_client \<and> m_region connected_client = Some zero_region \<and>
   fst (write_frame (clientToServer zero_region)
          (request_header (m_nextSeq connected_client) 1 7 [41,0,0,0]) [41,0,0,0]) \<and>
   (- 1 :: int) \<le> 0 \<and>
   fst (call_begin connected_client 1 7 [41,0,0,0] (- 1)) = Inl RPC_ERR_DISCONNECTED \<and>
   map_of (m_pending (fst (snd (call_begin connected_client 1 7 [41,0,0,0] (- 1))))) 1 = Some 0 \<and>
   m_pending (fst (Client_disconnect (fst (snd (call_begin connected_client 1 7 [41,0,0,0] (- 1))))))
     = []"
  using C10_signal_failure_keeps_entry [of connected_client zero_region 1 7 "[41,0,0,0]" "- 1"]
  by (simp add: connected_client_def zero_region_def write_frame_small split: prod.splits)

text \<open>
  The claim as stated has the receiver loop's exit clear the entry. On a fresh connection,
  after a call whose signal send failed, the entry for \<open>seq\<close> 1 is still in the table when
  the receiver loop has run its exit code.
\<close>

theorem C10_receiver_exit_counterexample:
  "fst (call_begin connected_client 1 7 [41,0,0,0] (- 1)) = Inl RPC_ERR_DISCONNECTED \<and>
   map_of (m_pending (receiverLoop_exit
             (fst (snd (call_begin connected_client 1 7 [41,0,0,0] (- 1)))))) 1 = Some 0"
  by (simp add: call_begin_def connected_client_def zero_region_def write_frame_small Let_def
      receiverLoop_exit_def)

section \<open>Call correlation\<close>

lemma receiver_dispatch_response:
  assumes "flags header AND FRAME_RESPONSE \<noteq> 0"
    and "map_of (m_pending c) (seq header) = Some p"
  shows "receiver_dispatch c header payload =
     (c\<lparr>heap := (heap c)[p := (heap c ! p)\<lparr>status := aux header, response := payload,
                                          done_flag := True\<rparr>]\<rparr>, [])"
  using assms by (simp add: receiver_dispatch_def)

lemma call_finish_done:
  assumes "done_flag (heap c ! p)"
  shows "call_finish c sq p resp =
     (status (heap c ! p),
      (if status (heap c ! p) = RPC_SUCCESS \<and> resp \<noteq> None then Some (response (heap c ! p))
       else resp),
      c\<lparr>m_pending := AList.delete sq (m_pending c)\<rparr>)"
  using assms by (simp add: call_finish_def Let_def)

lemma call_after_response:
  assumes f: "flags header AND FRAME_RESPONSE \<noteq> 0"
    and m: "map_of (m_pending c) (seq header) = Some p"
    and p: "p < length (heap c)"
  shows "call_finish (fst (receiver_dispatch c header payload)) (seq header) p resp =
     (aux header,
      (if aux header = RPC_SUCCESS \<and> resp \<noteq> None then Some payload else resp),
      (fst (receiver_dispatch c header payload))
         \<lparr>m_pending := AList.delete (seq header) (m_pending c)\<rparr>)"
proof -
  let ?c' = "fst (receiver_dispatch c header payload)"
  have h: "heap ?c' ! p = (heap c ! p)\<lparr>status := aux header, response := payload,
                                          done_flag := True\<rparr>"
    using p by (simp add: receiver_dispatch_response [OF f m])
  have mp: "m_pending ?c' = m_pending c"
    by (simp add: receiver_dispatch_response [OF f m])
  have d: "done_flag (heap ?c' ! p)" by (simp add: h)
  show ?thesis by (simp add: call_finish_done [OF d] h mp)
qed

lemma build_response_fields:
  "flags (fst (build_response handler header payload)) = FRAME_RESPONSE"
  "seq (fst (build_response handler header payload)) = seq header"
  "serviceId (fst (build_response handler header payload)) = serviceId header"
  "messageId (fst (build_response handler header payload)) = messageId header"
  "version (fst (build_response handler header payload)) = PROTOCOL_VERSION"
  by (simp_all add: build_response_def FrameHeader_zero_def split: prod.splits option.splits)

lemma build_response_handler:
  "aux (fst (build_response (Some h) header payload)) = fst (h (messageId header) payload)"
  "snd (build_response (Some h) header payload) = snd (h (messageId header) payload)"
  by (simp_all add: build_response_def split: prod.splits)

lemma build_response_no_handler:
  "aux (fst (build_response None header payload)) = RPC_ERR_INVALID_METHOD"
  "snd (build_response None header payload) = []"
  by (simp_all add: build_response_def)

lemma response_flag: "FRAME_RESPONSE \<noteq> 0"
  by (simp add: FRAME_RESPONSE_def)

section \<open>The receiver loop and the steps of the other threads\<close>

lemma owns_iff:
  "owns c sq p \<longleftrightarrow> p < length (heap c) \<and> (\<forall>k. map_of (m_pending c) k = Some p \<longrightarrow> k = sq)"
  unfolding owns_def
  by (metis domI dom_map_of_conv_image_fst)

lemma receiver_dispatch_keeps:
  "m_region (fst (receiver_dispatch c header payload)) = m_region c"
  "m_pending (fst (receiver_dispatch c header payload)) = m_pending c"
  "length (heap (fst (receiver_dispatch c header payload))) = length (heap c)"
  by (simp_all add: receiver_dispatch_def split: option.splits)

lemma receiver_dispatch_other:
  assumes "owns c sq p" and "\<not> answers sq header"
  shows "heap (fst (receiver_dispatch c header payload)) ! p = heap c ! p"
proof (cases "flags header AND FRAME_RESPONSE \<noteq> 0")
  case True
  with assms(2) have ne: "seq header \<noteq> sq" by (simp add: answers_def)
  show ?thesis
  proof (cases "map_of (m_pending c) (seq header)")
    case None
    then show ?thesis by (simp add: receiver_dispatch_def)
  next
    case (Some q)
    with assms(1) ne have "q \<noteq> p" by (auto simp: owns_iff)
    then show ?thesis using True Some by (simp add: receiver_dispatch_def)
  qed
next
  case False
  then show ?thesis by (simp add: receiver_dispatch_def)
qed

lemma act_keeps:
  assumes o: "owns c sq p" and l: "leaves_alone sq c a"
  shows "owns (act c a) sq p \<and> heap (act c a) ! p = heap c ! p"
proof (cases a)
  case ReceiverTakes
  show ?thesis
  proof (cases "receiverLoop_step c")
    case None
    then show ?thesis using o by (simp add: ReceiverTakes)
  next
    case (Some x)
    then obtain r header payload rb where reg: "m_region c = Some r"
      and tf: "take_frame (serverToClient r) = Some (header, payload, rb)"
      and x: "x = receiver_dispatch (c\<lparr>m_region := Some (r\<lparr>serverToClient := rb\<rparr>)\<rparr>) header payload"
      by (auto simp: receiverLoop_step_def split: option.splits)
    define c1 where "c1 = c\<lparr>m_region := Some (r\<lparr>serverToClient := rb\<rparr>)\<rparr>"
    have o1: "owns c1 sq p" using o by (simp add: owns_def c1_def)
    have nr: "\<not> answers sq header"
      using l by (simp add: ReceiverTakes reg tf)
    have a: "act c a = fst (receiver_dispatch c1 header payload)"
      by (simp add: ReceiverTakes Some x c1_def split: prod.splits)
    have "heap (act c a) ! p = heap c1 ! p"
      unfolding a using o1 nr by (rule receiver_dispatch_other)
    moreover have "owns (act c a) sq p"
      using o1 by (simp add: owns_def a receiver_dispatch_keeps)
    ultimately show ?thesis by (simp add: c1_def)
  qed
next
  case ReceiverExits
  then show ?thesis using l by simp
next
  case (CallBegins sid methodId request sendSignalByte)
  have p: "p < length (heap c)" using o by (simp add: owns_def)
  have u: "\<forall>k. map_of (m_pending c) k = Some p \<longrightarrow> k = sq" using o by (simp add: owns_iff)
  show ?thesis
    unfolding owns_iff
    using p u
    by (auto simp: CallBegins call_begin_def Let_def update_conv' nth_append
        split: option.splits prod.splits bool.splits if_splits)
next
  case (CallEnds sq' q resp)
  have p: "p < length (heap c)" using o by (simp add: owns_def)
  have u: "\<forall>k. map_of (m_pending c) k = Some p \<longrightarrow> k = sq" using o by (simp add: owns_iff)
  show ?thesis
    unfolding owns_iff
    using p u
    by (auto simp: CallEnds call_finish_def Let_def delete_conv' split: if_splits)
next
  case (Notifies sid notifyId payload sendSignalByte)
  show ?thesis
    using o
    by (auto simp: Notifies Client_notify_def Let_def owns_def
        split: option.splits prod.splits bool.splits if_splits)
next
  case Disconnects
  then show ?thesis using l by simp
next
  case (PeerWrites r)
  then show ?thesis using o by (auto simp: owns_def split: option.splits)
qed

lemma undisturbed_keeps:
  assumes "owns c sq p" and "undisturbed sq c as"
  shows "owns (foldl act c as) sq p \<and> heap (foldl act c as) ! p = heap c ! p"
  using assms
proof (induction as arbitrary: c)
  case Nil
  then show ?case by simp
next
  case (Cons a as)
  from Cons.prems have l: "leaves_alone sq c a" and u: "undisturbed sq (act c a) as"
    by simp_all
  note k = act_keeps [OF Cons.prems(1) l]
  from k have o: "owns (act c a) sq p" by simp
  from Cons.IH [OF o u] k show ?case by simp
qed

lemma dispatch_region:
  "receiver_dispatch (c\<lparr>m_region := X\<rparr>) h p =
     ((fst (receiver_dispatch c h p))\<lparr>m_region := X\<rparr>, snd (receiver_dispatch c h p))"
  by (simp add: receiver_dispatch_def split: option.splits)

lemma dispatch_all_region:
  "dispatch_all (c\<lparr>m_region := X\<rparr>) fs = (dispatch_all c fs)\<lparr>m_region := X\<rparr>"
  unfolding dispatch_all_def
  by (induction fs arbitrary: c) (simp_all add: dispatch_region)

lemma dispatch_all_keeps:
  "m_pending (dispatch_all c fs) = m_pending c"
  "length (heap (dispatch_all c fs)) = length (heap c)"
  "m_running (dispatch_all c fs) = m_running c"
  unfolding dispatch_all_def
  by (induction fs arbitrary: c) (simp_all add: receiver_dispatch_keeps receiver_dispatch_def split: option.splits)

lemma dispatch_all_last:
  assumes f: "flags h AND FRAME_RESPONSE \<noteq> 0"
    and m: "map_of (m_pending c) (seq h) = Some p" and p: "p < length (heap c)"
  shows "heap (dispatch_all c (fs @ [(h, pl)])) ! p =
           (heap (dispatch_all c fs) ! p)\<lparr>status := aux h, response := pl, done_flag := True\<rparr>"
proof -
  have e: "dispatch_all c (fs @ [(h, pl)]) = fst (receiver_dispatch (dispatch_all c fs) h pl)"
    by (simp add: dispatch_all_def)
  have m': "map_of (m_pending (dispatch_all c fs)) (seq h) = Some p"
    using m by (simp add: dispatch_all_keeps)
  show ?thesis
    unfolding e using p
    by (simp add: receiver_dispatch_response [OF f m'] dispatch_all_keeps)
qed

lemma dispatch_all_append:
  "dispatch_all c (xs @ ys) = dispatch_all (dispatch_all c xs) ys"
  by (simp add: dispatch_all_def)

lemma dispatch_all_others:
  assumes "owns c sq p" and "\<forall>f \<in> set fs. \<not> answers sq (fst f)"
  shows "heap (dispatch_all c fs) ! p = heap c ! p"
  using assms
proof (induction fs arbitrary: c)
  case Nil
  then show ?case by (simp add: dispatch_all_def)
next
  case (Cons f fs)
  define c' where "c' = fst (receiver_dispatch c (fst f) (snd f))"
  from Cons.prems have nf: "\<not> answers sq (fst f)" and rest: "\<forall>f \<in> set fs. \<not> answers sq (fst f)"
    by simp_all
  have h: "heap c' ! p = heap c ! p"
    unfolding c'_def using Cons.prems(1) nf by (rule receiver_dispatch_other)
  have o: "owns c' sq p"
    using Cons.prems(1) by (simp add: owns_def c'_def receiver_dispatch_keeps)
  have "dispatch_all c (f # fs) = dispatch_all c' fs" by (simp add: dispatch_all_def c'_def)
  then show ?case using Cons.IH [OF o rest] h by simp
qed

lemma drain_queued:
  assumes "m_region c = Some rr" and "queued (serverToClient rr) fs"
  shows "\<exists>e. head e = tail e \<and>
           fst (receiver_drain c) =
             (dispatch_all c fs)\<lparr>m_region := Some (rr\<lparr>serverToClient := e\<rparr>)\<rparr>"
  using assms
proof (induction fs arbitrary: c rr)
  case Nil
  then have em: "head (serverToClient rr) = tail (serverToClient rr)" by simp
  then have "take_frame (serverToClient rr) = None" by (rule take_frame_empty)
  then have "receiverLoop_step c = None" using Nil.prems(1) by (simp add: receiverLoop_step_def)
  then have "receiver_drain c = (c, [])" by (simp add: receiver_drain.simps [of c])
  moreover have "c\<lparr>m_region := Some (rr\<lparr>serverToClient := serverToClient rr\<rparr>)\<rparr> = c"
    using Nil.prems(1) [symmetric] by simp
  ultimately have "fst (receiver_drain c) =
      (dispatch_all c [])\<lparr>m_region := Some (rr\<lparr>serverToClient := serverToClient rr\<rparr>)\<rparr>"
    by (simp add: dispatch_all_def)
  with em show ?case by blast
next
  case (Cons f fs)
  from Cons.prems(2) obtain rb0 where tf: "take_frame (serverToClient rr) = Some (fst f, snd f, rb0)"
    and q0: "queued rb0 fs"
    by (auto split: option.splits)
  define X where "X = Some (rr\<lparr>serverToClient := rb0\<rparr>)"
  define c' where "c' = (fst (receiver_dispatch c (fst f) (snd f)))\<lparr>m_region := X\<rparr>"
  have st: "receiverLoop_step c = Some (c', snd (receiver_dispatch c (fst f) (snd f)))"
    using Cons.prems(1) by (simp add: receiverLoop_step_def tf dispatch_region c'_def X_def)
  have reg': "m_region c' = Some (rr\<lparr>serverToClient := rb0\<rparr>)" by (simp add: c'_def X_def)
  have q': "queued (serverToClient (rr\<lparr>serverToClient := rb0\<rparr>)) fs" using q0 by simp
  from Cons.IH [OF reg' q'] obtain e where em: "head e = tail e" and
    ih: "fst (receiver_drain c') =
           (dispatch_all c' fs)\<lparr>m_region := Some (rr\<lparr>serverToClient := rb0\<rparr>\<lparr>serverToClient := e\<rparr>)\<rparr>"
    by blast
  have "fst (receiver_drain c) = fst (receiver_drain c')"
    by (simp add: receiver_drain.simps [of c] st split: prod.splits)
  also have "\<dots> = (dispatch_all (fst (receiver_dispatch c (fst f) (snd f))) fs)
                      \<lparr>m_region := Some (rr\<lparr>serverToClient := e\<rparr>)\<rparr>"
    unfolding ih by (simp add: c'_def dispatch_all_region)
  also have "\<dots> = (dispatch_all c (f # fs))\<lparr>m_region := Some (rr\<lparr>serverToClient := e\<rparr>)\<rparr>"
    by (simp add: dispatch_all_def)
  finally show ?case using em by blast
qed

lemma drain_queued_fields:
  assumes "m_region c = Some rr" and "queued (serverToClient rr) fs"
  shows "heap (fst (receiver_drain c)) = heap (dispatch_all c fs)"
    and "m_pending (fst (receiver_drain c)) = m_pending c"
    and "m_region (fst (receiver_drain c)) \<noteq> None"
    and "receiverLoop_step (fst (receiver_drain c)) = None"
proof -
  from drain_queued [OF assms] obtain e where em: "head e = tail e" and
    e: "fst (receiver_drain c) =
          (dispatch_all c fs)\<lparr>m_region := Some (rr\<lparr>serverToClient := e\<rparr>)\<rparr>"
    by blast
  show "heap (fst (receiver_drain c)) = heap (dispatch_all c fs)" by (simp add: e)
  show "m_pending (fst (receiver_drain c)) = m_pending c" by (simp add: e dispatch_all_keeps)
  show "m_region (fst (receiver_drain c)) \<noteq> None" by (simp add: e)
  show "receiverLoop_step (fst (receiver_drain c)) = None"
    using em by (simp add: e receiverLoop_step_def take_frame_empty)
qed

lemma ring_put_nothing: "ring_put d off [] 0 = d"
  by (simp add: ring_put_def memcpy_def Let_def)

lemma write_frame_header_only:
  assumes ok: "ring_ok RING_BUFFER_SIZE rb" and pb: "payloadBytes h = 0"
    and fit: "24 \<le> unat (writeAvailable RING_BUFFER_SIZE rb)"
  shows "write_frame rb h [] =
     (True, rb\<lparr>data := ring_put (data rb) (unat (head rb) mod 262144) (encodeFrameHeader h) 24,
                head := head rb + 24\<rparr>)"
  using write_frame_explicit [OF ok, of h "[]"] pb fit
  by (simp add: ring_put_nothing)

lemma write_frame_no_room:
  assumes "unat (writeAvailable RING_BUFFER_SIZE rb) < 24"
  shows "write_frame rb h p = (False, rb)"
proof -
  have "writeAvailable RING_BUFFER_SIZE rb < 24" using assms by (simp add: word_less_nat_alt)
  then have "write_rb RING_BUFFER_SIZE rb (encodeFrameHeader h) 24 = (False, rb)"
    by (rule write_rb_fail)
  then show ?thesis by (simp add: write_frame_def Let_def length_encodeFrameHeader)
qed

lemma connectionLoop_step_no_room:
  assumes tf: "take_frame (clientToServer r) = Some (header, payload, rb)"
    and rq: "flags header AND FRAME_REQUEST \<noteq> 0"
    and full: "unat (writeAvailable RING_BUFFER_SIZE (serverToClient r)) < 24"
  shows "connectionLoop_step handler sock r = Some (r\<lparr>clientToServer := rb\<rparr>, [])"
proof -
  have e: "r\<lparr>clientToServer := rb, serverToClient := serverToClient r\<rparr> = r\<lparr>clientToServer := rb\<rparr>"
    by simp
  show ?thesis
    using rq
    by (simp add: connectionLoop_step_def tf Let_def write_frame_no_room [OF full] e
        split: prod.splits)
qed

lemma connectionLoop_step_no_handler:
  assumes tf: "take_frame (clientToServer r) = Some (header, payload, rb)"
    and rq: "flags header AND FRAME_REQUEST \<noteq> 0"
    and ok: "ring_ok RING_BUFFER_SIZE (serverToClient r)"
    and fit: "24 \<le> unat (writeAvailable RING_BUFFER_SIZE (serverToClient r))"
  shows "connectionLoop_step None sock r =
     Some (r\<lparr>clientToServer := rb,
             serverToClient := (serverToClient r)
               \<lparr>data := ring_put (data (serverToClient r))
                          (unat (head (serverToClient r)) mod 262144)
                          (encodeFrameHeader (fst (build_response None header payload))) 24,
                head := head (serverToClient r) + 24\<rparr>\<rparr>,
           [signal_event sock])"
proof -
  define rh where "rh = fst (build_response None header payload)"
  have br: "build_response None header payload = (rh, [])"
    by (simp add: rh_def prod_eq_iff build_response_no_handler)
  have pb: "payloadBytes rh = 0"
    by (simp add: rh_def build_response_def FrameHeader_zero_def)
  note w = write_frame_header_only [OF ok pb fit]
  show ?thesis
    unfolding rh_def [symmetric]
    using rq by (simp add: connectionLoop_step_def tf Let_def br w)
qed

lemma receiverLoop_step_response:
  assumes reg: "m_region c = Some r"
    and tf: "take_frame (serverToClient r) = Some (header, payload, rb)"
    and f: "flags header AND FRAME_RESPONSE \<noteq> 0"
    and m: "map_of (m_pending c) (seq header) = Some p"
    and p: "p < length (heap c)"
  shows "\<exists>c1. receiverLoop_step c = Some (c1, []) \<and> m_pending c1 = m_pending c \<and>
           length (heap c1) = length (heap c) \<and>
           heap c1 ! p = (heap c ! p)\<lparr>status := aux header, response := payload,
                                         done_flag := True\<rparr>"
proof -
  define c0 where "c0 = c\<lparr>m_region := Some (r\<lparr>serverToClient := rb\<rparr>)\<rparr>"
  have m0: "map_of (m_pending c0) (seq header) = Some p" using m by (simp add: c0_def)
  note d = receiver_dispatch_response [OF f m0, of payload]
  have "receiverLoop_step c = Some (receiver_dispatch c0 header payload)"
    by (simp add: receiverLoop_step_def reg tf c0_def)
  then have "receiverLoop_step c =
      Some (c0\<lparr>heap := (heap c0)[p := (heap c0 ! p)\<lparr>status := aux header, response := payload,
                                                    done_flag := True\<rparr>]\<rparr>, [])"
    by (simp only: d)
  then show ?thesis using p by (simp add: c0_def)
qed

lemma call_after_schedule:
  assumes o: "owns c1 sq p" and u: "undisturbed sq c1 as"
    and d: "done_flag (heap c1 ! p)"
  shows "call_finish (foldl act c1 as) sq p resp =
     (status (heap c1 ! p),
      (if status (heap c1 ! p) = RPC_SUCCESS \<and> resp \<noteq> None then Some (response (heap c1 ! p))
       else resp),
      (foldl act c1 as)\<lparr>m_pending := AList.delete sq (m_pending (foldl act c1 as))\<rparr>)"
proof -
  from undisturbed_keeps [OF o u] have h: "heap (foldl act c1 as) ! p = heap c1 ! p" by simp
  have d': "done_flag (heap (foldl act c1 as) ! p)" using d by (simp add: h)
  show ?thesis by (simp add: call_finish_done [OF d'] h)
qed

lemma receiverLoop_iteration_running:
  assumes "m_running c" "0 < n"
  shows "receiverLoop_iteration c n = (True, receiver_drain c)"
  using assms by (simp add: receiverLoop_iteration_def split: prod.splits)

lemma invalid_method_value:
  "RPC_ERR_INVALID_METHOD = 0xFFFFFFFC" "sint RPC_ERR_INVALID_METHOD = - 4"
  "RPC_ERR_INVALID_METHOD \<noteq> RPC_SUCCESS"
  by (simp_all add: RPC_ERR_INVALID_METHOD_def RPC_SUCCESS_def)

lemma call_after_drain:
  assumes reg: "m_region c = Some rr"
    and q: "queued (serverToClient rr) (pre @ (rh, rp) # post)"
    and np: "\<forall>f \<in> set post. \<not> answers (seq rh) (fst f)"
    and f: "flags rh AND FRAME_RESPONSE \<noteq> 0"
    and m: "map_of (m_pending c) (seq rh) = Some p" and o: "owns c (seq rh) p"
    and u: "undisturbed (seq rh) (fst (receiver_drain c)) as"
  shows "call_finish (foldl act (fst (receiver_drain c)) as) (seq rh) p resp =
     (aux rh,
      (if aux rh = RPC_SUCCESS \<and> resp \<noteq> None then Some rp else resp),
      (foldl act (fst (receiver_drain c)) as)
        \<lparr>m_pending := AList.delete (seq rh) (m_pending (foldl act (fst (receiver_drain c)) as))\<rparr>)"
proof -
  have p: "p < length (heap c)" using o by (simp add: owns_def)
  note d = drain_queued_fields [OF reg q]
  define cm where "cm = dispatch_all c (pre @ [(rh, rp)])"
  have sp: "pre @ (rh, rp) # post = (pre @ [(rh, rp)]) @ post" by simp
  have e: "dispatch_all c (pre @ (rh, rp) # post) = dispatch_all cm post"
    unfolding sp cm_def by (rule dispatch_all_append)
  have hm: "heap cm ! p =
      (heap (dispatch_all c pre) ! p)\<lparr>status := aux rh, response := rp, done_flag := True\<rparr>"
    unfolding cm_def using f m p by (rule dispatch_all_last)
  have om: "owns cm (seq rh) p"
    using o by (simp add: owns_def cm_def dispatch_all_keeps)
  have hp: "heap (fst (receiver_drain c)) ! p =
      (heap (dispatch_all c pre) ! p)\<lparr>status := aux rh, response := rp, done_flag := True\<rparr>"
    using dispatch_all_others [OF om np] by (simp add: d(1) e hm)
  have o2: "owns (fst (receiver_drain c)) (seq rh) p"
    using o by (simp add: owns_def d dispatch_all_keeps)
  have dn: "done_flag (heap (fst (receiver_drain c)) ! p)" by (simp add: hp)
  show ?thesis by (simp add: call_after_schedule [OF o2 u dn] hp)
qed

section \<open>The answered call of the example\<close>

lemma call_finish_client:
  "snd (snd (call_finish c sq p resp)) = c\<lparr>m_pending := AList.delete sq (m_pending c)\<rparr>"
  by (simp add: call_finish_def Let_def)

lemma waiting_client_fields:
  "m_pending waiting_client = [(1, 0)]"
  "heap waiting_client = [\<lparr>done_flag = False, status = RPC_SUCCESS, response = []\<rparr>]"
  "m_running waiting_client"
  "m_notifyHandler waiting_client = False"
  "serverToClient (the (m_region waiting_client)) = initial (replicate 262144 0)"
  by (simp_all add: waiting_client_def call_begin_example)

lemma zeros_ok: "ring_ok RING_BUFFER_SIZE (initial (replicate 262144 0))"
  by (simp add: ring_ok_def ring_size initial_fields)

lemma request_flag: "flags (request_header sq sid mid request) AND FRAME_REQUEST \<noteq> 0"
  by (simp add: request_header_def FrameHeader_zero_def FRAME_REQUEST_def)

lemma request_payloadBytes: "payloadBytes (request_header sq sid mid request) = of_nat (length request)"
  by (simp add: request_header_def FrameHeader_zero_def)

lemma notify_payloadBytes:
  "payloadBytes (notify_header sid notifyId payload) = of_nat (length payload)"
  by (simp add: notify_header_def FrameHeader_zero_def)

lemma request_seq: "seq (request_header sq sid mid request) = sq"
  by (simp add: request_header_def FrameHeader_zero_def)

lemma zeros_empty: "head (initial (replicate 262144 0)) = tail (initial (replicate 262144 0))"
  by (simp add: initial_fields)

lemma waiting_request:
  "clientToServer (the (m_region waiting_client)) =
     snd (write_frame (initial (replicate 262144 0)) (request_header 1 1 7 [41,0,0,0]) [41,0,0,0])"
  "take_frame (clientToServer (the (m_region waiting_client))) =
     Some (request_header 1 1 7 [41,0,0,0], [41,0,0,0],
           (clientToServer (the (m_region waiting_client)))\<lparr>tail := 28\<rparr>)"
proof -
  show e: "clientToServer (the (m_region waiting_client)) =
     snd (write_frame (initial (replicate 262144 0)) (request_header 1 1 7 [41,0,0,0]) [41,0,0,0])"
    by (simp add: waiting_client_def call_begin_example write_frame_small)
  have f: "24 + length [41,0,0,0::8 word] \<le> 262144" by simp
  note t = frame_transport [OF zeros_ok zeros_empty request_payloadBytes f, of 1 1 7]
  show "take_frame (clientToServer (the (m_region waiting_client))) =
     Some (request_header 1 1 7 [41,0,0,0], [41,0,0,0],
           (clientToServer (the (m_region waiting_client)))\<lparr>tail := 28\<rparr>)"
    unfolding e t(4) by (simp add: t(2) initial_fields)
qed

lemma answer_hdr_fields:
  "answer_hdr = \<lparr>version = 1, flags = 2, serviceId = 1, messageId = 7, seq = 1,
                  payloadBytes = 4, aux = 0\<rparr>"
  "seq answer_hdr = 1" "aux answer_hdr = 0" "flags answer_hdr AND FRAME_RESPONSE \<noteq> 0"
  "payloadBytes answer_hdr = of_nat (length [42,0,0,0::8 word])"
  by (simp_all add: answer_hdr_def build_response_def ok_handler_def request_header_def
      FrameHeader_zero_def PROTOCOL_VERSION_def FRAME_RESPONSE_def)

lemma answered_take:
  "take_frame (serverToClient answered_region) =
     Some (answer_hdr, [42,0,0,0],
           (serverToClient answered_region)\<lparr>tail := head (serverToClient answered_region)\<rparr>)"
proof -
  have e: "head (initial (replicate 262144 0)) = tail (initial (replicate 262144 0))"
    by (simp add: initial_fields)
  have f: "24 + length [42,0,0,0::8 word] \<le> 262144" by simp
  note t = frame_transport [OF zeros_ok e answer_hdr_fields(5) f]
  show ?thesis by (simp add: answered_region_def t(4))
qed

lemma answered_client_fields:
  "m_region answered_client = Some answered_region"
  "map_of (m_pending answered_client) 1 = Some 0"
  "owns answered_client 1 0"
  by (simp_all add: answered_client_def waiting_client_fields owns_def)

lemma answered_step:
  "receiverLoop_step answered_client =
     Some (answered_client
             \<lparr>m_region := Some (answered_region\<lparr>serverToClient :=
                 (serverToClient answered_region)\<lparr>tail := head (serverToClient answered_region)\<rparr>\<rparr>),
              heap := [\<lparr>done_flag = True, status = 0, response = [42,0,0,0]\<rparr>]\<rparr>, [])"
  by (simp add: receiverLoop_step_def answered_client_fields(1) answered_take
      receiver_dispatch_def answer_hdr_fields(2,3,4))
     (simp add: answered_client_def waiting_client_fields RPC_SUCCESS_def answer_hdr_fields(3))

lemma answered_schedule:
  "undisturbed 1 (fst (the (receiverLoop_step answered_client)))
     [ReceiverTakes, CallBegins 1 8 [] 1, PeerWrites zero_region, ReceiverTakes]"
  "map_of (m_pending (foldl act (fst (the (receiverLoop_step answered_client)))
     [ReceiverTakes, CallBegins 1 8 [] 1, PeerWrites zero_region, ReceiverTakes])) 2 = Some 1"
  "m_region (foldl act (fst (the (receiverLoop_step answered_client)))
     [ReceiverTakes, CallBegins 1 8 [] 1, PeerWrites zero_region, ReceiverTakes]) = Some zero_region"
proof -
  define R1 where "R1 = answered_region\<lparr>serverToClient :=
                 (serverToClient answered_region)\<lparr>tail := head (serverToClient answered_region)\<rparr>\<rparr>"
  define c1 where "c1 = answered_client
             \<lparr>m_region := Some R1,
              heap := [\<lparr>done_flag = True, status = 0, response = [42,0,0,0]\<rparr>]\<rparr>"
  have st: "fst (the (receiverLoop_step answered_client)) = c1"
    by (simp add: answered_step c1_def R1_def)
  have e1: "take_frame (serverToClient R1) = None"
    by (rule take_frame_empty) (simp add: R1_def)
  have s1: "receiverLoop_step c1 = None" by (simp add: receiverLoop_step_def c1_def e1)
  have a1: "act c1 ReceiverTakes = c1" by (simp add: s1)
  have l1: "leaves_alone 1 c1 ReceiverTakes" by (simp add: c1_def e1)
  \<comment> \<open>another thread begins a call\<close>
  have c2s: "clientToServer R1 = (clientToServer (the (m_region waiting_client)))\<lparr>tail := 28\<rparr>"
    by (simp add: R1_def answered_region_def)
  have ok: "ring_ok RING_BUFFER_SIZE (clientToServer R1)"
    by (simp add: c2s waiting_request(1) write_frame_small ring_ok_def ring_size)
  have em: "head (clientToServer R1) = tail (clientToServer R1)"
    by (simp add: c2s waiting_request(1) write_frame_small)
  have f0: "24 + length ([] :: 8 word list) \<le> 262144" by simp
  note t = frame_transport [OF ok em request_payloadBytes f0, of 2 1 8]
  obtain rbx where w: "write_frame (clientToServer R1) (request_header 2 1 8 []) [] = (True, rbx)"
    using t(1) by (cases "write_frame (clientToServer R1) (request_header 2 1 8 []) []") auto
  have ns: "m_nextSeq c1 = 2" "m_running c1" "m_pending c1 = [(1, 0)]" "m_region c1 = Some R1"
    "length (heap c1) = 1"
    by (simp_all add: c1_def answered_client_def waiting_client_def call_begin_example)
  define c2 where "c2 = act c1 (CallBegins 1 8 [] 1)"
  have c2: "m_region c2 = Some (R1\<lparr>clientToServer := rbx\<rparr>)"
    "m_pending c2 = AList.update 2 1 [(1, 0)]"
    by (simp_all add: c2_def call_begin_def Let_def ns w)
  define c3 where "c3 = act c2 (PeerWrites zero_region)"
  have c3: "m_region c3 = Some zero_region" "m_pending c3 = m_pending c2"
    by (simp_all add: c3_def c2(1))
  have e3: "take_frame (serverToClient zero_region) = None"
    by (rule take_frame_empty) (simp add: zero_region_def initial_fields)
  have s3: "receiverLoop_step c3 = None" by (simp add: receiverLoop_step_def c3(1) e3)
  have l3: "leaves_alone 1 c3 ReceiverTakes" by (simp add: c3(1) e3)
  have a3: "act c3 ReceiverTakes = c3" by (simp add: s3)
  have lB: "leaves_alone 1 c1 (CallBegins 1 8 [] 1)" by simp
  have lC: "leaves_alone 1 c2 (PeerWrites zero_region)" by simp
  have fin: "foldl act c1 [ReceiverTakes, CallBegins 1 8 [] 1, PeerWrites zero_region, ReceiverTakes] = c3"
    by (simp only: foldl.simps a1 c2_def [symmetric] c3_def [symmetric] a3)
  show "undisturbed 1 (fst (the (receiverLoop_step answered_client)))
     [ReceiverTakes, CallBegins 1 8 [] 1, PeerWrites zero_region, ReceiverTakes]"
    unfolding st using l1 lB lC l3
    by (simp only: undisturbed.simps a1 c2_def [symmetric] c3_def [symmetric] simp_thms)
  show "map_of (m_pending (foldl act (fst (the (receiverLoop_step answered_client)))
     [ReceiverTakes, CallBegins 1 8 [] 1, PeerWrites zero_region, ReceiverTakes])) 2 = Some 1"
    unfolding st fin by (simp add: c3(2) c2(2))
  show "m_region (foldl act (fst (the (receiverLoop_step answered_client)))
     [ReceiverTakes, CallBegins 1 8 [] 1, PeerWrites zero_region, ReceiverTakes]) = Some zero_region"
    unfolding st fin by (rule c3(1))
qed

section \<open>Client::call: status and payload of a completed call\<close>

text \<open>
  C2, as amended: the RESPONSE header the server builds carries the status the handler
  returned in \<open>aux\<close>, with the request's \<open>seq\<close> and the handler's payload. When an
  iteration of the client's receiver loop takes a RESPONSE frame whose \<open>seq\<close> is in the
  pending table, and the caller, waiting in \<^verbatim>\<open>wait_for\<close>, gets to run after any sequence
  of steps of the other threads that leaves its \<open>PendingCall\<close> alone (further receiver
  iterations on frames that
  are no RESPONSE for the same \<open>seq\<close>, other calls beginning and ending, notifications,
  the server at work on the shared region; not the code after the receiver loop, not
  \<open>disconnect\<close>, not a second RESPONSE for this \<open>seq\<close>), \<open>Client::call\<close> returns
  exactly the frame's \<open>aux\<close> (any value, positive ones included), removes the entry for
  that \<open>seq\<close> and no other, and stores the frame's payload into \<open>*response\<close> only when
  the status is \<open>RPC_SUCCESS\<close> and \<open>response\<close> is non-null; for every other status
  \<open>*response\<close> is left as it was.
\<close>

theorem C2_call_returns_status:
  "(aux (fst (build_response (Some h) request_hdr request)) = fst (h (messageId request_hdr) request) \<and>
    seq (fst (build_response (Some h) request_hdr request)) = seq request_hdr \<and>
    flags (fst (build_response (Some h) request_hdr request)) AND FRAME_RESPONSE \<noteq> 0 \<and>
    snd (build_response (Some h) request_hdr request) = snd (h (messageId request_hdr) request)) \<and>
   (m_region c = Some r \<and> take_frame (serverToClient r) = Some (header, payload, rb) \<and>
    flags header AND FRAME_RESPONSE \<noteq> 0 \<and> map_of (m_pending c) (seq header) = Some p \<and>
    owns c (seq header) p \<and> c1 = fst (the (receiverLoop_step c)) \<and>
    undisturbed (seq header) c1 as \<longrightarrow>
      receiverLoop_step c = Some (c1, []) \<and>
      (case call_finish (foldl act c1 as) (seq header) p resp of
         (st, resp', c') \<Rightarrow>
           st = aux header \<and>
           resp' = (if aux header = RPC_SUCCESS \<and> resp \<noteq> None then Some payload else resp) \<and>
           map_of (m_pending c') (seq header) = None \<and>
           (\<forall>k. k \<noteq> seq header \<longrightarrow>
              map_of (m_pending c') k = map_of (m_pending (foldl act c1 as)) k)))"
proof (intro conjI impI)
  assume a: "m_region c = Some r \<and> take_frame (serverToClient r) = Some (header, payload, rb) \<and>
    flags header AND FRAME_RESPONSE \<noteq> 0 \<and> map_of (m_pending c) (seq header) = Some p \<and>
    owns c (seq header) p \<and> c1 = fst (the (receiverLoop_step c)) \<and>
    undisturbed (seq header) c1 as"
  then have reg: "m_region c = Some r"
    and tf: "take_frame (serverToClient r) = Some (header, payload, rb)"
    and f: "flags header AND FRAME_RESPONSE \<noteq> 0"
    and m: "map_of (m_pending c) (seq header) = Some p"
    and o: "owns c (seq header) p" and c1: "c1 = fst (the (receiverLoop_step c))"
    and u: "undisturbed (seq header) c1 as"
    by blast+
  have p: "p < length (heap c)" using o by (simp add: owns_def)
  from receiverLoop_step_response [OF reg tf f m p] c1
  have st: "receiverLoop_step c = Some (c1, [])" and mp: "m_pending c1 = m_pending c"
    and len: "length (heap c1) = length (heap c)"
    and hp: "heap c1 ! p = (heap c ! p)\<lparr>status := aux header, response := payload,
                                           done_flag := True\<rparr>"
    by auto
  have o1: "owns c1 (seq header) p" using o by (simp add: owns_def mp len)
  have d: "done_flag (heap c1 ! p)" by (simp add: hp)
  show "receiverLoop_step c = Some (c1, [])" by (rule st)
  show "case call_finish (foldl act c1 as) (seq header) p resp of
         (st, resp', c') \<Rightarrow>
           st = aux header \<and>
           resp' = (if aux header = RPC_SUCCESS \<and> resp \<noteq> None then Some payload else resp) \<and>
           map_of (m_pending c') (seq header) = None \<and>
           (\<forall>k. k \<noteq> seq header \<longrightarrow>
              map_of (m_pending c') k = map_of (m_pending (foldl act c1 as)) k)"
    by (simp add: call_after_schedule [OF o1 u d] hp delete_conv')
qed (simp_all add: build_response_fields build_response_handler response_flag)

theorem C2_call_returns_status_witness:
  "m_region answered_client = Some answered_region \<and>
   take_frame (serverToClient answered_region) =
     Some (answer_hdr, [42,0,0,0],
           (serverToClient answered_region)\<lparr>tail := head (serverToClient answered_region)\<rparr>) \<and>
   flags answer_hdr AND FRAME_RESPONSE \<noteq> 0 \<and> seq answer_hdr = 1 \<and> aux answer_hdr = 0 \<and>
   map_of (m_pending answered_client) 1 = Some 0 \<and> owns answered_client 1 0 \<and>
   undisturbed 1 (fst (the (receiverLoop_step answered_client)))
     [ReceiverTakes, CallBegins 1 8 [] 1, PeerWrites zero_region, ReceiverTakes] \<and>
   map_of (m_pending (foldl act (fst (the (receiverLoop_step answered_client)))
     [ReceiverTakes, CallBegins 1 8 [] 1, PeerWrites zero_region, ReceiverTakes])) 2 = Some 1 \<and>
   m_region (foldl act (fst (the (receiverLoop_step answered_client)))
     [ReceiverTakes, CallBegins 1 8 [] 1, PeerWrites zero_region, ReceiverTakes]) =
     Some zero_region \<and>
   receiverLoop_step answered_client = Some (fst (the (receiverLoop_step answered_client)), []) \<and>
   fst (call_finish
          (foldl act (fst (the (receiverLoop_step answered_client)))
             [ReceiverTakes, CallBegins 1 8 [] 1, PeerWrites zero_region, ReceiverTakes])
          1 0 (Some [])) = 0 \<and>
   fst (snd (call_finish
          (foldl act (fst (the (receiverLoop_step answered_client)))
             [ReceiverTakes, CallBegins 1 8 [] 1, PeerWrites zero_region, ReceiverTakes])
          1 0 (Some []))) = Some [42,0,0,0] \<and>
   map_of (m_pending (snd (snd (call_finish
          (foldl act (fst (the (receiverLoop_step answered_client)))
             [ReceiverTakes, CallBegins 1 8 [] 1, PeerWrites zero_region, ReceiverTakes])
          1 0 (Some []))))) 1 = None \<and>
   map_of (m_pending (snd (snd (call_finish
          (foldl act (fst (the (receiverLoop_step answered_client)))
             [ReceiverTakes, CallBegins 1 8 [] 1, PeerWrites zero_region, ReceiverTakes])
          1 0 (Some []))))) 2 = Some 1"
  using C2_call_returns_status [where h = ok_handler
      and request_hdr = "request_header 1 1 7 [41,0,0,0]" and request = "[41,0,0,0]"
      and c = answered_client and r = answered_region and header = answer_hdr
      and payload = "[42,0,0,0]"
      and rb = "(serverToClient answered_region)\<lparr>tail := head (serverToClient answered_region)\<rparr>"
      and p = 0 and ?c1.0 = "fst (the (receiverLoop_step answered_client))"
      and as = "[ReceiverTakes, CallBegins 1 8 [] 1, PeerWrites zero_region, ReceiverTakes]"
      and resp = "Some []"]
    answered_client_fields answered_take answer_hdr_fields(2,3,4) answered_schedule
  by (simp add: case_prod_beta RPC_SUCCESS_def)

text \<open>
  The claim as stated has the payload stored for any handler status, and the handler's
  status returned whenever the RESPONSE was processed in time. With a handler that returns
  the user-defined status 5 and the payload \<open>[42]\<close>, \<open>call\<close> returns 5 and the caller's
  vector, empty before the call, is still empty. With a handler that returns 0 and the
  RESPONSE processed by the receiver, the caller gets \<open>RPC_ERR_DISCONNECTED\<close> when the
  code after the receiver loop runs before it wakes, \<open>RPC_ERR_STOPPED\<close> when
  \<open>disconnect\<close> does, and 9 when a second RESPONSE for its \<open>seq\<close> with \<open>aux\<close> 9 is
  processed before it wakes. And a call whose signal byte could not be sent has returned
  \<open>RPC_ERR_DISCONNECTED\<close> without waiting, leaving the client as a waiting call does:
  its request is in the ring and its entry in the table, so all of the above applies to
  its RESPONSE too.
\<close>

theorem C2_call_result_counterexample:
  "fst (call_begin connected_client 1 7 [41,0,0,0] 1) = Inr (1, 0) \<and>
   build_response (Some status5_handler) (request_header 1 1 7 [41,0,0,0]) [41,0,0,0] =
     (\<lparr>version = 1, flags = 2, serviceId = 1, messageId = 7, seq = 1, payloadBytes = 1,
       aux = 5\<rparr>, [42]) \<and>
   fst (call_finish
          (fst (receiver_dispatch (fst (snd (call_begin connected_client 1 7 [41,0,0,0] 1)))
                  \<lparr>version = 1, flags = 2, serviceId = 1, messageId = 7, seq = 1,
                   payloadBytes = 1, aux = 5\<rparr> [42]))
          1 0 (Some [])) = 5 \<and>
   fst (snd (call_finish
          (fst (receiver_dispatch (fst (snd (call_begin connected_client 1 7 [41,0,0,0] 1)))
                  \<lparr>version = 1, flags = 2, serviceId = 1, messageId = 7, seq = 1,
                   payloadBytes = 1, aux = 5\<rparr> [42]))
          1 0 (Some []))) = Some [] \<and>
   Some [] \<noteq> Some [42::8 word] \<and>
   build_response (Some ok_handler) (request_header 1 1 7 [41,0,0,0]) [41,0,0,0] =
     (\<lparr>version = 1, flags = 2, serviceId = 1, messageId = 7, seq = 1, payloadBytes = 4,
       aux = 0\<rparr>, [42,0,0,0]) \<and>
   fst (call_finish
          (receiverLoop_exit
             (fst (receiver_dispatch (fst (snd (call_begin connected_client 1 7 [41,0,0,0] 1)))
                     \<lparr>version = 1, flags = 2, serviceId = 1, messageId = 7, seq = 1,
                      payloadBytes = 4, aux = 0\<rparr> [42,0,0,0])))
          1 0 (Some [])) = RPC_ERR_DISCONNECTED \<and>
   fst (call_finish
          (fst (Client_disconnect
             (fst (receiver_dispatch (fst (snd (call_begin connected_client 1 7 [41,0,0,0] 1)))
                     \<lparr>version = 1, flags = 2, serviceId = 1, messageId = 7, seq = 1,
                      payloadBytes = 4, aux = 0\<rparr> [42,0,0,0]))))
          1 0 (Some [])) = RPC_ERR_STOPPED \<and>
   fst (call_finish
          (fst (receiver_dispatch
             (fst (receiver_dispatch (fst (snd (call_begin connected_client 1 7 [41,0,0,0] 1)))
                     \<lparr>version = 1, flags = 2, serviceId = 1, messageId = 7, seq = 1,
                      payloadBytes = 4, aux = 0\<rparr> [42,0,0,0]))
             \<lparr>version = 1, flags = 2, serviceId = 1, messageId = 7, seq = 1,
              payloadBytes = 0, aux = 9\<rparr> []))
          1 0 (Some [])) = 9 \<and>
   RPC_ERR_DISCONNECTED \<noteq> 0 \<and> RPC_ERR_STOPPED \<noteq> 0 \<and>
   fst (call_begin connected_client 1 7 [41,0,0,0] 0) = Inl RPC_ERR_DISCONNECTED \<and>
   fst (snd (call_begin connected_client 1 7 [41,0,0,0] 0)) =
     fst (snd (call_begin connected_client 1 7 [41,0,0,0] 1))"
  by (simp add: call_begin_unsignalled)
     (simp add: call_begin_example build_response_def status5_handler_def ok_handler_def
      request_header_def
      FrameHeader_zero_def receiver_dispatch_def call_finish_def FRAME_RESPONSE_def
      PROTOCOL_VERSION_def RPC_SUCCESS_def Let_def receiverLoop_exit_def fail_all_def
      Client_disconnect_def release_def RPC_ERR_DISCONNECTED_def RPC_ERR_STOPPED_def)

section \<open>No handler installed\<close>

lemma response_payloadBytes:
  "payloadBytes (fst (build_response handler header payload)) =
     of_nat (length (snd (build_response handler header payload)))"
  by (simp add: build_response_def FrameHeader_zero_def split: prod.splits option.splits)

lemma busy_ring_facts:
  "ring_ok RING_BUFFER_SIZE busy_ring"
  "queued busy_ring [(notify_header 1 99 [123,0,0,0], [123,0,0,0])]"
  "24 \<le> unat (writeAvailable RING_BUFFER_SIZE busy_ring)"
  "head busy_ring = 28" "tail busy_ring = 0"
proof -
  have f: "24 + length [123,0,0,0::8 word] \<le> 262144" by simp
  note t = frame_transport [OF zeros_ok zeros_empty notify_payloadBytes f, of 1 99,
      folded busy_ring_def]
  show "ring_ok RING_BUFFER_SIZE busy_ring" by (rule t(5))
  show "queued busy_ring [(notify_header 1 99 [123,0,0,0], [123,0,0,0])]"
    by (simp add: t(4))
  show "24 \<le> unat (writeAvailable RING_BUFFER_SIZE busy_ring)"
    by (simp add: writeAvailable_def t(2) t(3) initial_fields RING_BUFFER_SIZE_def)
  show "head busy_ring = 28" "tail busy_ring = 0"
    by (simp_all add: t(2) t(3) initial_fields)
qed

lemma full_ring_facts:
  "queued full_ring [(notify_header 1 99 (replicate 262112 0), replicate 262112 0)]"
  "unat (writeAvailable RING_BUFFER_SIZE full_ring) < 24"
proof -
  have f: "24 + length (replicate 262112 (0::8 word)) \<le> 262144" by simp
  note t = frame_transport [OF zeros_ok zeros_empty notify_payloadBytes f, of 1 99,
      folded full_ring_def]
  show "queued full_ring [(notify_header 1 99 (replicate 262112 0), replicate 262112 0)]"
    by (simp add: t(4))
  show "unat (writeAvailable RING_BUFFER_SIZE full_ring) < 24"
    by (simp add: writeAvailable_def t(2) t(3) initial_fields RING_BUFFER_SIZE_def)
qed

lemma refusal_hdr_fields:
  "build_response None (request_header 1 1 7 [41,0,0,0]) [41,0,0,0] = (refusal_hdr, [])"
  "seq refusal_hdr = 1" "payloadBytes refusal_hdr = 0"
  by (simp_all add: refusal_hdr_def build_response_def request_header_def FrameHeader_zero_def)

lemma busy_region_facts:
  "take_frame (clientToServer busy_region) =
     Some (request_header 1 1 7 [41,0,0,0], [41,0,0,0], (clientToServer busy_region)\<lparr>tail := 28\<rparr>)"
  "ring_ok RING_BUFFER_SIZE (serverToClient busy_region)"
  "queued (serverToClient busy_region) [(notify_header 1 99 [123,0,0,0], [123,0,0,0])]"
  "24 \<le> unat (writeAvailable RING_BUFFER_SIZE (serverToClient busy_region))"
  "head (serverToClient busy_region) = 28" "tail (serverToClient busy_region) = 0"
  using waiting_request(2) busy_ring_facts by (simp_all add: busy_region_def)

lemma full_region_facts:
  "take_frame (clientToServer full_region) =
     Some (request_header 1 1 7 [41,0,0,0], [41,0,0,0], (clientToServer full_region)\<lparr>tail := 28\<rparr>)"
  "queued (serverToClient full_region)
     [(notify_header 1 99 (replicate 262112 0), replicate 262112 0)]"
  "unat (writeAvailable RING_BUFFER_SIZE (serverToClient full_region)) < 24"
  using waiting_request(2) full_ring_facts by (simp_all add: full_region_def)

lemma refused_region_facts:
  "snd (write_frame (serverToClient busy_region) refusal_hdr []) =
     (serverToClient busy_region)
       \<lparr>data := ring_put (data (serverToClient busy_region))
                  (unat (head (serverToClient busy_region)) mod 262144)
                  (encodeFrameHeader refusal_hdr) 24,
        head := head (serverToClient busy_region) + 24\<rparr>"
  "queued (serverToClient refused_region)
     ([(notify_header 1 99 [123,0,0,0], [123,0,0,0])] @
      (refusal_hdr, []) # [(notify_header 1 100 [5], [5])])"
proof -
  define S where "S = snd (write_frame (serverToClient busy_region) refusal_hdr [])"
  note w = write_frame_header_only [OF busy_region_facts(2) refusal_hdr_fields(3)
      busy_region_facts(4)]
  show e: "snd (write_frame (serverToClient busy_region) refusal_hdr []) =
     (serverToClient busy_region)
       \<lparr>data := ring_put (data (serverToClient busy_region))
                  (unat (head (serverToClient busy_region)) mod 262144)
                  (encodeFrameHeader refusal_hdr) 24,
        head := head (serverToClient busy_region) + 24\<rparr>"
    by (simp add: w)
  have pb: "payloadBytes refusal_hdr = of_nat (length ([] :: 8 word list))"
    by (simp add: refusal_hdr_fields(3))
  have fit: "24 + length ([] :: 8 word list) \<le>
             unat (writeAvailable RING_BUFFER_SIZE (serverToClient busy_region))"
    using busy_region_facts(4) by simp
  have qS: "queued S ([(notify_header 1 99 [123,0,0,0], [123,0,0,0])] @ [(refusal_hdr, [])])"
    unfolding S_def using busy_region_facts(2) busy_region_facts(3) pb fit by (rule queued_append)
  have okS: "ring_ok RING_BUFFER_SIZE S"
    unfolding S_def using busy_region_facts(2)
    by (rule ring_ok_write_frame) (simp add: refusal_hdr_fields(3))
  have fitS: "24 + length [5::8 word] \<le> unat (writeAvailable RING_BUFFER_SIZE S)"
    by (simp add: S_def e writeAvailable_def busy_region_facts(5,6) RING_BUFFER_SIZE_def)
  have "queued (snd (write_frame S (notify_header 1 100 [5]) [5]))
          (([(notify_header 1 99 [123,0,0,0], [123,0,0,0])] @ [(refusal_hdr, [])]) @
           [(notify_header 1 100 [5], [5])])"
    using okS qS notify_payloadBytes fitS by (rule queued_append)
  then show "queued (serverToClient refused_region)
     ([(notify_header 1 99 [123,0,0,0], [123,0,0,0])] @
      (refusal_hdr, []) # [(notify_header 1 100 [5], [5])])"
    by (simp add: refused_region_def S_def)
qed

lemma later_frames:
  "\<forall>f \<in> set [(notify_header 1 100 [5], [5::8 word])]. \<not> answers 1 (fst f)"
  by (simp add: answers_def notify_header_def FrameHeader_zero_def FRAME_NOTIFY_def
      FRAME_RESPONSE_def)

lemma refused_client_fields:
  "m_region refused_client = Some refused_region"
  "m_running refused_client"
  "map_of (m_pending refused_client) 1 = Some 0"
  "owns refused_client 1 0"
  by (simp_all add: refused_client_def waiting_client_fields owns_def)

lemma stalled_client_fields:
  "m_region stalled_client =
     Some (full_region\<lparr>clientToServer := (clientToServer full_region)\<lparr>tail := 28\<rparr>\<rparr>)"
  "m_running stalled_client"
  "map_of (m_pending stalled_client) 1 = Some 0"
  "heap stalled_client = [\<lparr>done_flag = False, status = RPC_SUCCESS, response = []\<rparr>]"
  by (simp_all add: stalled_client_def waiting_client_fields)

text \<open>
  C8, as amended: when the server's per-connection receiver takes a REQUEST frame from the
  ring and no handler is installed, it builds a RESPONSE whose flags are RESPONSE, whose
  \<open>seq\<close> is the request's, whose \<open>aux\<close> is 0xFFFFFFFC, which is
  \<open>RPC_ERR_INVALID_METHOD\<close> (-4) read as unsigned, and whose payload is empty. With
  fewer than 24 bytes free in \<open>serverToClient\<close> the server drops it: the request is
  consumed, \<open>serverToClient\<close> is as it was and no signal byte is sent. With 24 bytes
  free in a \<open>serverToClient\<close> ring that satisfies its invariant and holds the complete
  frames \<open>fs\<close>, the server puts the 24 header bytes at \<open>head\<close>, moves \<open>head\<close> forward by
  24 and sends the signal byte, and the ring then holds \<open>fs\<close> followed by the RESPONSE.
  When the client's receiver loop, running and given a signal byte, drains a ring in which
  that RESPONSE is queued (behind any frames, and before later frames none of which is a
  RESPONSE for the same \<open>seq\<close>) while the caller of that \<open>seq\<close> waits in \<^verbatim>\<open>wait_for\<close>,
  and the caller gets to run after steps of the other threads that leave its
  \<open>PendingCall\<close> alone,
  \<open>Client::call\<close> returns \<open>RPC_ERR_INVALID_METHOD\<close>, leaves \<open>*response\<close> as it was and
  removes the pending entry.
\<close>

theorem C8_no_handler:
  "build_response None request_hdr request = (rh, rp) \<and>
   take_frame (clientToServer r) = Some (request_hdr, request, rb) \<and>
   flags request_hdr AND FRAME_REQUEST \<noteq> 0 \<longrightarrow>
     flags rh = FRAME_RESPONSE \<and> seq rh = seq request_hdr \<and> aux rh = 0xFFFFFFFC \<and>
     sint (aux rh) = - 4 \<and> payloadBytes rh = 0 \<and> rp = [] \<and>
     (unat (writeAvailable RING_BUFFER_SIZE (serverToClient r)) < 24 \<longrightarrow>
        connectionLoop_step None sock r = Some (r\<lparr>clientToServer := rb\<rparr>, [])) \<and>
     (ring_ok RING_BUFFER_SIZE (serverToClient r) \<and> queued (serverToClient r) fs \<and>
      24 \<le> unat (writeAvailable RING_BUFFER_SIZE (serverToClient r)) \<and>
      S = (serverToClient r)
            \<lparr>data := ring_put (data (serverToClient r))
                       (unat (head (serverToClient r)) mod 262144) (encodeFrameHeader rh) 24,
             head := head (serverToClient r) + 24\<rparr> \<longrightarrow>
        connectionLoop_step None sock r =
          Some (r\<lparr>clientToServer := rb, serverToClient := S\<rparr>, [signal_event sock]) \<and>
        queued S (fs @ [(rh, [])]) \<and>
        (m_region c = Some rr \<and> queued (serverToClient rr) (pre @ (rh, []) # post) \<and>
         (\<forall>f \<in> set post. \<not> answers (seq request_hdr) (fst f)) \<and>
         m_running c \<and> 0 < recvSignalByte \<and>
         map_of (m_pending c) (seq request_hdr) = Some p \<and> owns c (seq request_hdr) p \<and>
         receiverLoop_iteration c recvSignalByte = (go, c2, ev) \<and>
         undisturbed (seq request_hdr) c2 as \<longrightarrow>
           go \<and>
           (case call_finish (foldl act c2 as) (seq request_hdr) p resp of
              (st, resp', c') \<Rightarrow>
                st = RPC_ERR_INVALID_METHOD \<and> sint st = - 4 \<and> resp' = resp \<and>
                map_of (m_pending c') (seq request_hdr) = None)))"
proof (intro impI)
  assume a: "build_response None request_hdr request = (rh, rp) \<and>
   take_frame (clientToServer r) = Some (request_hdr, request, rb) \<and>
   flags request_hdr AND FRAME_REQUEST \<noteq> 0"
  then have br: "build_response None request_hdr request = (rh, rp)"
    and tf: "take_frame (clientToServer r) = Some (request_hdr, request, rb)"
    and rq: "flags request_hdr AND FRAME_REQUEST \<noteq> 0"
    by blast+
  have rh: "rh = fst (build_response None request_hdr request)"
    and rp: "rp = snd (build_response None request_hdr request)"
    by (simp_all add: br)
  have fl: "flags rh = FRAME_RESPONSE" and sq: "seq rh = seq request_hdr"
    by (simp_all add: rh build_response_fields)
  have ax: "aux rh = RPC_ERR_INVALID_METHOD" and rp0: "rp = []"
    by (simp_all add: rh rp build_response_no_handler)
  have pb: "payloadBytes rh = 0"
    by (simp add: rh build_response_def FrameHeader_zero_def)
  have room: "connectionLoop_step None sock r =
          Some (r\<lparr>clientToServer := rb, serverToClient := S\<rparr>, [signal_event sock]) \<and>
        queued S (fs @ [(rh, [])]) \<and>
        (m_region c = Some rr \<and> queued (serverToClient rr) (pre @ (rh, []) # post) \<and>
         (\<forall>f \<in> set post. \<not> answers (seq request_hdr) (fst f)) \<and>
         m_running c \<and> 0 < recvSignalByte \<and>
         map_of (m_pending c) (seq request_hdr) = Some p \<and> owns c (seq request_hdr) p \<and>
         receiverLoop_iteration c recvSignalByte = (go, c2, ev) \<and>
         undisturbed (seq request_hdr) c2 as \<longrightarrow>
           go \<and>
           (case call_finish (foldl act c2 as) (seq request_hdr) p resp of
              (st, resp', c') \<Rightarrow>
                st = RPC_ERR_INVALID_METHOD \<and> sint st = - 4 \<and> resp' = resp \<and>
                map_of (m_pending c') (seq request_hdr) = None))"
    if b: "ring_ok RING_BUFFER_SIZE (serverToClient r) \<and> queued (serverToClient r) fs \<and>
      24 \<le> unat (writeAvailable RING_BUFFER_SIZE (serverToClient r)) \<and>
      S = (serverToClient r)
            \<lparr>data := ring_put (data (serverToClient r))
                       (unat (head (serverToClient r)) mod 262144) (encodeFrameHeader rh) 24,
             head := head (serverToClient r) + 24\<rparr>"
  proof -
    from b have ok: "ring_ok RING_BUFFER_SIZE (serverToClient r)"
      and q: "queued (serverToClient r) fs"
      and fit: "24 \<le> unat (writeAvailable RING_BUFFER_SIZE (serverToClient r))"
      and S: "S = (serverToClient r)
            \<lparr>data := ring_put (data (serverToClient r))
                       (unat (head (serverToClient r)) mod 262144) (encodeFrameHeader rh) 24,
             head := head (serverToClient r) + 24\<rparr>"
      by blast+
    have w: "write_frame (serverToClient r) rh [] = (True, S)"
      unfolding S using ok pb fit by (rule write_frame_header_only)
    have step: "connectionLoop_step None sock r =
          Some (r\<lparr>clientToServer := rb, serverToClient := S\<rparr>, [signal_event sock])"
      unfolding S rh using tf rq ok fit by (rule connectionLoop_step_no_handler)
    have pb': "payloadBytes rh = of_nat (length ([] :: 8 word list))" by (simp add: pb)
    have fit': "24 + length ([] :: 8 word list) \<le> unat (writeAvailable RING_BUFFER_SIZE (serverToClient r))"
      using fit by simp
    have qS: "queued S (fs @ [(rh, [])])"
      using queued_append [OF ok q pb' fit'] by (simp add: w)
    have client: "go \<and>
           (case call_finish (foldl act c2 as) (seq request_hdr) p resp of
              (st, resp', c') \<Rightarrow>
                st = RPC_ERR_INVALID_METHOD \<and> sint st = - 4 \<and> resp' = resp \<and>
                map_of (m_pending c') (seq request_hdr) = None)"
      if c: "m_region c = Some rr \<and> queued (serverToClient rr) (pre @ (rh, []) # post) \<and>
         (\<forall>f \<in> set post. \<not> answers (seq request_hdr) (fst f)) \<and>
         m_running c \<and> 0 < recvSignalByte \<and>
         map_of (m_pending c) (seq request_hdr) = Some p \<and> owns c (seq request_hdr) p \<and>
         receiverLoop_iteration c recvSignalByte = (go, c2, ev) \<and>
         undisturbed (seq request_hdr) c2 as"
    proof -
      from c have reg: "m_region c = Some rr"
        and q2: "queued (serverToClient rr) (pre @ (rh, []) # post)"
        and np: "\<forall>f \<in> set post. \<not> answers (seq request_hdr) (fst f)"
        and run: "m_running c" and sig: "0 < recvSignalByte"
        and m: "map_of (m_pending c) (seq request_hdr) = Some p"
        and o: "owns c (seq request_hdr) p"
        and it: "receiverLoop_iteration c recvSignalByte = (go, c2, ev)"
        and u: "undisturbed (seq request_hdr) c2 as"
        by blast+
      from it receiverLoop_iteration_running [OF run sig]
      have go: "go" and c2: "c2 = fst (receiver_drain c)" by simp_all
      have np2: "\<forall>f \<in> set post. \<not> answers (seq rh) (fst f)" using np by (simp add: sq)
      have f2: "flags rh AND FRAME_RESPONSE \<noteq> 0" by (simp add: fl response_flag)
      have m2: "map_of (m_pending c) (seq rh) = Some p" using m by (simp add: sq)
      have o2: "owns c (seq rh) p" using o by (simp add: sq)
      have u2: "undisturbed (seq rh) (fst (receiver_drain c)) as" using u by (simp add: sq c2)
      note cf = call_after_drain [OF reg q2 np2 f2 m2 o2 u2, of resp, folded c2, unfolded sq ax]
      show ?thesis
        using go by (simp add: cf invalid_method_value RPC_SUCCESS_def delete_conv')
    qed
    show ?thesis using step qS client by blast
  qed
  have ax1: "aux rh = 0xFFFFFFFC" and ax2: "sint (aux rh) = - 4"
    by (simp_all add: ax invalid_method_value)
  have noroom: "connectionLoop_step None sock r = Some (r\<lparr>clientToServer := rb\<rparr>, [])"
    if "unat (writeAvailable RING_BUFFER_SIZE (serverToClient r)) < 24"
    using tf rq that by (rule connectionLoop_step_no_room)
  show "flags rh = FRAME_RESPONSE \<and> seq rh = seq request_hdr \<and> aux rh = 0xFFFFFFFC \<and>
     sint (aux rh) = - 4 \<and> payloadBytes rh = 0 \<and> rp = [] \<and>
     (unat (writeAvailable RING_BUFFER_SIZE (serverToClient r)) < 24 \<longrightarrow>
        connectionLoop_step None sock r = Some (r\<lparr>clientToServer := rb\<rparr>, [])) \<and>
     (ring_ok RING_BUFFER_SIZE (serverToClient r) \<and> queued (serverToClient r) fs \<and>
      24 \<le> unat (writeAvailable RING_BUFFER_SIZE (serverToClient r)) \<and>
      S = (serverToClient r)
            \<lparr>data := ring_put (data (serverToClient r))
                       (unat (head (serverToClient r)) mod 262144) (encodeFrameHeader rh) 24,
             head := head (serverToClient r) + 24\<rparr> \<longrightarrow>
        connectionLoop_step None sock r =
          Some (r\<lparr>clientToServer := rb, serverToClient := S\<rparr>, [signal_event sock]) \<and>
        queued S (fs @ [(rh, [])]) \<and>
        (m_region c = Some rr \<and> queued (serverToClient rr) (pre @ (rh, []) # post) \<and>
         (\<forall>f \<in> set post. \<not> answers (seq request_hdr) (fst f)) \<and>
         m_running c \<and> 0 < recvSignalByte \<and>
         map_of (m_pending c) (seq request_hdr) = Some p \<and> owns c (seq request_hdr) p \<and>
         receiverLoop_iteration c recvSignalByte = (go, c2, ev) \<and>
         undisturbed (seq request_hdr) c2 as \<longrightarrow>
           go \<and>
           (case call_finish (foldl act c2 as) (seq request_hdr) p resp of
              (st, resp', c') \<Rightarrow>
                st = RPC_ERR_INVALID_METHOD \<and> sint st = - 4 \<and> resp' = resp \<and>
                map_of (m_pending c') (seq request_hdr) = None)))"
    using fl sq ax1 ax2 rp0 pb noroom room by blast
qed

theorem C8_no_handler_witness:
  "build_response None (request_header 1 1 7 [41,0,0,0]) [41,0,0,0] = (refusal_hdr, []) \<and>
   flags (request_header 1 1 7 [41,0,0,0]) AND FRAME_REQUEST \<noteq> 0 \<and>
   take_frame (clientToServer full_region) =
     Some (request_header 1 1 7 [41,0,0,0], [41,0,0,0], (clientToServer full_region)\<lparr>tail := 28\<rparr>) \<and>
   unat (writeAvailable RING_BUFFER_SIZE (serverToClient full_region)) < 24 \<and>
   connectionLoop_step None 5 full_region =
     Some (full_region\<lparr>clientToServer := (clientToServer full_region)\<lparr>tail := 28\<rparr>\<rparr>, []) \<and>
   take_frame (clientToServer busy_region) =
     Some (request_header 1 1 7 [41,0,0,0], [41,0,0,0], (clientToServer busy_region)\<lparr>tail := 28\<rparr>) \<and>
   ring_ok RING_BUFFER_SIZE (serverToClient busy_region) \<and>
   queued (serverToClient busy_region) [(notify_header 1 99 [123,0,0,0], [123,0,0,0])] \<and>
   24 \<le> unat (writeAvailable RING_BUFFER_SIZE (serverToClient busy_region)) \<and>
   connectionLoop_step None 5 busy_region =
     Some (busy_region\<lparr>clientToServer := (clientToServer busy_region)\<lparr>tail := 28\<rparr>,
                       serverToClient :=
                         snd (write_frame (serverToClient busy_region) refusal_hdr [])\<rparr>,
           [signal_event 5]) \<and>
   queued (snd (write_frame (serverToClient busy_region) refusal_hdr []))
     [(notify_header 1 99 [123,0,0,0], [123,0,0,0]), (refusal_hdr, [])] \<and>
   m_region refused_client = Some refused_region \<and>
   queued (serverToClient refused_region)
     [(notify_header 1 99 [123,0,0,0], [123,0,0,0]), (refusal_hdr, []),
      (notify_header 1 100 [5], [5])] \<and>
   \<not> answers 1 (notify_header 1 100 [5]) \<and>
   m_running refused_client \<and>
   map_of (m_pending refused_client) 1 = Some 0 \<and> owns refused_client 1 0 \<and>
   undisturbed 1 (fst (snd (receiverLoop_iteration refused_client 1))) [CallEnds 2 1 None, PeerWrites zero_region] \<and>
   fst (receiverLoop_iteration refused_client 1) \<and>
   fst (call_finish
          (foldl act (fst (snd (receiverLoop_iteration refused_client 1))) [CallEnds 2 1 None, PeerWrites zero_region])
          1 0 (Some [9])) = RPC_ERR_INVALID_METHOD \<and>
   fst (snd (call_finish
          (foldl act (fst (snd (receiverLoop_iteration refused_client 1))) [CallEnds 2 1 None, PeerWrites zero_region])
          1 0 (Some [9]))) = Some [9] \<and>
   m_region (foldl act (fst (snd (receiverLoop_iteration refused_client 1)))
               [CallEnds 2 1 None, PeerWrites zero_region]) = Some zero_region"
proof -
  have it1: "receiverLoop_iteration refused_client 1 = (True, receiver_drain refused_client)"
    by (rule receiverLoop_iteration_running) (simp_all add: refused_client_fields)
  obtain r0 where r0: "m_region (fst (receiver_drain refused_client)) = Some r0"
    using drain_queued_fields(3) [OF refused_client_fields(1) refused_region_facts(2)] by auto
  have eff: "m_region (foldl act (fst (snd (receiverLoop_iteration refused_client 1)))
               [CallEnds 2 1 None, PeerWrites zero_region]) = Some zero_region"
    by (simp add: it1 call_finish_client r0)
  have pa: "build_response None (request_header 1 1 7 [41,0,0,0]) [41,0,0,0] = (refusal_hdr, []) \<and>
    take_frame (clientToServer full_region) =
      Some (request_header 1 1 7 [41,0,0,0], [41,0,0,0], (clientToServer full_region)\<lparr>tail := 28\<rparr>) \<and>
    flags (request_header 1 1 7 [41,0,0,0]) AND FRAME_REQUEST \<noteq> 0"
    using refusal_hdr_fields(1) full_region_facts(1) request_flag by blast
  from C8_no_handler [where request_hdr = "request_header 1 1 7 [41,0,0,0]"
      and request = "[41,0,0,0]" and rh = refusal_hdr and rp = "[]" and r = full_region
      and rb = "(clientToServer full_region)\<lparr>tail := 28\<rparr>" and sock = 5, THEN mp, OF pa]
    full_region_facts(3)
  have a: "connectionLoop_step None 5 full_region =
     Some (full_region\<lparr>clientToServer := (clientToServer full_region)\<lparr>tail := 28\<rparr>\<rparr>, [])"
    by blast
  have pb: "build_response None (request_header 1 1 7 [41,0,0,0]) [41,0,0,0] = (refusal_hdr, []) \<and>
    take_frame (clientToServer busy_region) =
      Some (request_header 1 1 7 [41,0,0,0], [41,0,0,0], (clientToServer busy_region)\<lparr>tail := 28\<rparr>) \<and>
    flags (request_header 1 1 7 [41,0,0,0]) AND FRAME_REQUEST \<noteq> 0"
    using refusal_hdr_fields(1) busy_region_facts(1) request_flag by blast
  have u: "undisturbed 1 (fst (snd (receiverLoop_iteration refused_client 1))) [CallEnds 2 1 None, PeerWrites zero_region]"
    by simp
  have it: "receiverLoop_iteration refused_client 1 =
      (fst (receiverLoop_iteration refused_client 1),
       fst (snd (receiverLoop_iteration refused_client 1)),
       snd (snd (receiverLoop_iteration refused_client 1)))"
    by simp
  have sig: "(0::int) < 1" by simp
  note B = C8_no_handler [where request_hdr = "request_header 1 1 7 [41,0,0,0]"
      and request = "[41,0,0,0]" and rh = refusal_hdr and rp = "[]" and r = busy_region
      and rb = "(clientToServer busy_region)\<lparr>tail := 28\<rparr>" and sock = 5
      and fs = "[(notify_header 1 99 [123,0,0,0], [123,0,0,0])]"
      and S = "snd (write_frame (serverToClient busy_region) refusal_hdr [])"
      and c = refused_client and rr = refused_region
      and pre = "[(notify_header 1 99 [123,0,0,0], [123,0,0,0])]"
      and post = "[(notify_header 1 100 [5], [5])]"
      and recvSignalByte = 1 and p = 0
      and go = "fst (receiverLoop_iteration refused_client 1)"
      and ?c2.0 = "fst (snd (receiverLoop_iteration refused_client 1))"
      and ev = "snd (snd (receiverLoop_iteration refused_client 1))"
      and as = "[CallEnds 2 1 None, PeerWrites zero_region]" and resp = "Some [9]", THEN mp, OF pb,
      unfolded request_seq]
  have rh4: "ring_ok RING_BUFFER_SIZE (serverToClient busy_region) \<and>
      queued (serverToClient busy_region) [(notify_header 1 99 [123,0,0,0], [123,0,0,0])] \<and>
      24 \<le> unat (writeAvailable RING_BUFFER_SIZE (serverToClient busy_region)) \<and>
      snd (write_frame (serverToClient busy_region) refusal_hdr []) =
        (serverToClient busy_region)
          \<lparr>data := ring_put (data (serverToClient busy_region))
                     (unat (head (serverToClient busy_region)) mod 262144)
                     (encodeFrameHeader refusal_hdr) 24,
           head := head (serverToClient busy_region) + 24\<rparr>"
    using busy_region_facts(2,3,4) refused_region_facts(1) by blast
  have ch: "m_region refused_client = Some refused_region \<and>
      queued (serverToClient refused_region)
        ([(notify_header 1 99 [123,0,0,0], [123,0,0,0])] @
         (refusal_hdr, []) # [(notify_header 1 100 [5], [5])]) \<and>
      (\<forall>f \<in> set [(notify_header 1 100 [5], [5::8 word])]. \<not> answers 1 (fst f)) \<and>
      m_running refused_client \<and> (0::int) < 1 \<and>
      map_of (m_pending refused_client) 1 = Some 0 \<and> owns refused_client 1 0 \<and>
      receiverLoop_iteration refused_client 1 =
        (fst (receiverLoop_iteration refused_client 1),
         fst (snd (receiverLoop_iteration refused_client 1)),
         snd (snd (receiverLoop_iteration refused_client 1))) \<and>
      undisturbed 1 (fst (snd (receiverLoop_iteration refused_client 1))) [CallEnds 2 1 None, PeerWrites zero_region]"
    using refused_client_fields refused_region_facts(2) later_frames u it sig by blast
  note R = B [THEN conjunct2, THEN conjunct2, THEN conjunct2, THEN conjunct2, THEN conjunct2,
      THEN conjunct2, THEN conjunct2, THEN mp, OF rh4]
  note K = R [THEN conjunct2, THEN conjunct2, THEN mp, OF ch]
  have b1: "connectionLoop_step None 5 busy_region =
     Some (busy_region\<lparr>clientToServer := (clientToServer busy_region)\<lparr>tail := 28\<rparr>,
                       serverToClient :=
                         snd (write_frame (serverToClient busy_region) refusal_hdr [])\<rparr>,
           [signal_event 5])"
    by (rule R [THEN conjunct1])
  have b2: "queued (snd (write_frame (serverToClient busy_region) refusal_hdr []))
     [(notify_header 1 99 [123,0,0,0], [123,0,0,0]), (refusal_hdr, [])]"
    using R [THEN conjunct2, THEN conjunct1] by simp
  have b3: "fst (receiverLoop_iteration refused_client 1)" by (rule K [THEN conjunct1])
  have b4: "case call_finish
          (foldl act (fst (snd (receiverLoop_iteration refused_client 1))) [CallEnds 2 1 None, PeerWrites zero_region])
          1 0 (Some [9]) of
        (st, resp', c') \<Rightarrow>
          st = RPC_ERR_INVALID_METHOD \<and> sint st = - 4 \<and> resp' = Some [9] \<and>
          map_of (m_pending c') 1 = None"
    by (rule K [THEN conjunct2])
  from b4 have b5: "fst (call_finish
          (foldl act (fst (snd (receiverLoop_iteration refused_client 1))) [CallEnds 2 1 None, PeerWrites zero_region])
          1 0 (Some [9])) = RPC_ERR_INVALID_METHOD"
    and b6: "fst (snd (call_finish
          (foldl act (fst (snd (receiverLoop_iteration refused_client 1))) [CallEnds 2 1 None, PeerWrites zero_region])
          1 0 (Some [9]))) = Some [9]"
    by (simp_all add: case_prod_beta)
  have q3: "queued (serverToClient refused_region)
     [(notify_header 1 99 [123,0,0,0], [123,0,0,0]), (refusal_hdr, []),
      (notify_header 1 100 [5], [5])]"
    using refused_region_facts(2) by simp
  have na: "\<not> answers 1 (notify_header 1 100 [5])"
    using later_frames by simp
  show ?thesis
    using refusal_hdr_fields(1) request_flag [of 1 1 7 "[41,0,0,0]"] full_region_facts(1,3) a
      busy_region_facts(1,2,3,4) b1 b2 refused_client_fields q3 na u b3 b5 b6 eff
    by blast
qed

lemma refused_client_tables:
  "m_pending refused_client = [(1, 0)]"
  "heap refused_client = [\<lparr>done_flag = False, status = RPC_SUCCESS, response = []\<rparr>]"
  "m_notifyHandler refused_client = False"
  by (simp_all add: refused_client_def waiting_client_fields)

lemma refused_drained:
  "heap (fst (receiver_drain refused_client)) =
     [\<lparr>done_flag = True, status = RPC_ERR_INVALID_METHOD, response = []\<rparr>]"
  "m_pending (fst (receiver_drain refused_client)) = [(1, 0)]"
proof -
  note d = drain_queued_fields [OF refused_client_fields(1) refused_region_facts(2)]
  have "heap (dispatch_all refused_client
           ([(notify_header 1 99 [123,0,0,0], [123,0,0,0])] @
            (refusal_hdr, []) # [(notify_header 1 100 [5], [5])])) =
        [\<lparr>done_flag = True, status = RPC_ERR_INVALID_METHOD, response = []\<rparr>]"
    by (simp add: dispatch_all_def receiver_dispatch_def notify_header_def refusal_hdr_def
        build_response_def request_header_def FrameHeader_zero_def FRAME_NOTIFY_def
        FRAME_RESPONSE_def refused_client_tables)
  then show "heap (fst (receiver_drain refused_client)) =
     [\<lparr>done_flag = True, status = RPC_ERR_INVALID_METHOD, response = []\<rparr>]"
    by (simp add: d(1))
  show "m_pending (fst (receiver_drain refused_client)) = [(1, 0)]"
    by (simp add: d(2) refused_client_tables)
qed

text \<open>
  The claim as stated has the client's call return \<open>RPC_ERR_INVALID_METHOD\<close> whenever
  the server dispatches the request without a handler. With the request of the example in
  \<open>clientToServer\<close> and 8 bytes free in \<open>serverToClient\<close>, the server consumes the
  request, writes nothing and sends no signal; the client's receiver finds only the
  notification, and the call ends with \<open>RPC_ERR_TIMEOUT\<close>. With room in
  \<open>serverToClient\<close> and the RESPONSE written, the call still returns
  \<open>RPC_ERR_DISCONNECTED\<close> when the code after the receiver loop runs between the
  receiver's drain and the caller, and when the receiver's \<^verbatim>\<open>recvSignalByte\<close> fails so
  that the RESPONSE is never taken from the ring. And a call whose own signal byte could
  not be sent has returned \<open>RPC_ERR_DISCONNECTED\<close> without waiting, with its request in
  the ring for the server to dispatch.
\<close>

theorem C8_no_handler_counterexample:
  "flags (request_header 1 1 7 [41,0,0,0]) AND FRAME_REQUEST \<noteq> 0 \<and>
   take_frame (clientToServer full_region) =
     Some (request_header 1 1 7 [41,0,0,0], [41,0,0,0], (clientToServer full_region)\<lparr>tail := 28\<rparr>) \<and>
   connectionLoop_step None 5 full_region =
     Some (full_region\<lparr>clientToServer := (clientToServer full_region)\<lparr>tail := 28\<rparr>\<rparr>, []) \<and>
   m_region stalled_client =
     Some (full_region\<lparr>clientToServer := (clientToServer full_region)\<lparr>tail := 28\<rparr>\<rparr>) \<and>
   map_of (m_pending stalled_client) 1 = Some 0 \<and>
   fst (receiverLoop_iteration stalled_client 1) \<and>
   fst (call_finish (fst (snd (receiverLoop_iteration stalled_client 1))) 1 0 (Some [])) =
     RPC_ERR_TIMEOUT \<and>
   RPC_ERR_TIMEOUT \<noteq> RPC_ERR_INVALID_METHOD \<and>
   fst (call_finish (receiverLoop_exit (fst (snd (receiverLoop_iteration refused_client 1))))
          1 0 (Some [])) = RPC_ERR_DISCONNECTED \<and>
   \<not> fst (receiverLoop_iteration refused_client 0) \<and>
   fst (call_finish (fst (snd (receiverLoop_iteration refused_client 0))) 1 0 (Some [])) =
     RPC_ERR_DISCONNECTED \<and>
   RPC_ERR_DISCONNECTED \<noteq> RPC_ERR_INVALID_METHOD \<and>
   fst (call_begin connected_client 1 7 [41,0,0,0] 0) = Inl RPC_ERR_DISCONNECTED \<and>
   fst (snd (call_begin connected_client 1 7 [41,0,0,0] 0)) = waiting_client"
proof -
  note step = connectionLoop_step_no_room [OF full_region_facts(1) request_flag
      full_region_facts(3), of None 5]
  have it: "receiverLoop_iteration stalled_client 1 = (True, receiver_drain stalled_client)"
    by (rule receiverLoop_iteration_running) (simp_all add: stalled_client_fields)
  have q: "queued (serverToClient (full_region\<lparr>clientToServer := (clientToServer full_region)\<lparr>tail := 28\<rparr>\<rparr>))
             [(notify_header 1 99 (replicate 262112 0), replicate 262112 0)]"
    using full_region_facts(2) by simp
  note d = drain_queued_fields [OF stalled_client_fields(1) q]
  have "heap (dispatch_all stalled_client
                [(notify_header 1 99 (replicate 262112 0), replicate 262112 0)]) =
        heap stalled_client"
    by (simp add: dispatch_all_def receiver_dispatch_def notify_header_def FrameHeader_zero_def
        FRAME_NOTIFY_def FRAME_RESPONSE_def)
  then have h: "heap (fst (receiver_drain stalled_client)) =
      [\<lparr>done_flag = False, status = RPC_SUCCESS, response = []\<rparr>]"
    by (simp add: d(1) stalled_client_fields)
  have cf: "fst (call_finish (fst (snd (receiverLoop_iteration stalled_client 1))) 1 0 (Some [])) =
     RPC_ERR_TIMEOUT"
    by (simp add: it call_finish_def h)
  have ne: "RPC_ERR_TIMEOUT \<noteq> RPC_ERR_INVALID_METHOD"
    by (simp add: RPC_ERR_TIMEOUT_def RPC_ERR_INVALID_METHOD_def)
  have dropped: "flags (request_header 1 1 7 [41,0,0,0]) AND FRAME_REQUEST \<noteq> 0 \<and>
   take_frame (clientToServer full_region) =
     Some (request_header 1 1 7 [41,0,0,0], [41,0,0,0], (clientToServer full_region)\<lparr>tail := 28\<rparr>) \<and>
   connectionLoop_step None 5 full_region =
     Some (full_region\<lparr>clientToServer := (clientToServer full_region)\<lparr>tail := 28\<rparr>\<rparr>, []) \<and>
   m_region stalled_client =
     Some (full_region\<lparr>clientToServer := (clientToServer full_region)\<lparr>tail := 28\<rparr>\<rparr>) \<and>
   map_of (m_pending stalled_client) 1 = Some 0 \<and>
   fst (receiverLoop_iteration stalled_client 1) \<and>
   fst (call_finish (fst (snd (receiverLoop_iteration stalled_client 1))) 1 0 (Some [])) =
     RPC_ERR_TIMEOUT \<and>
   RPC_ERR_TIMEOUT \<noteq> RPC_ERR_INVALID_METHOD"
    using request_flag [of 1 1 7 "[41,0,0,0]"] full_region_facts(1) step stalled_client_fields(1,3)
      cf ne
    by (simp add: it)
  have it1: "receiverLoop_iteration refused_client 1 = (True, receiver_drain refused_client)"
    by (rule receiverLoop_iteration_running) (simp_all add: refused_client_fields)
  have xa: "fst (call_finish (receiverLoop_exit (fst (snd (receiverLoop_iteration refused_client 1))))
          1 0 (Some [])) = RPC_ERR_DISCONNECTED"
    by (simp add: it1 call_finish_def receiverLoop_exit_def fail_all_def refused_drained Let_def)
  have xb: "receiverLoop_iteration refused_client 0 = (False, receiverLoop_exit refused_client, [])"
    by (simp add: receiverLoop_iteration_def)
  have xc: "fst (call_finish (fst (snd (receiverLoop_iteration refused_client 0))) 1 0 (Some [])) =
     RPC_ERR_DISCONNECTED"
    by (simp add: xb call_finish_def receiverLoop_exit_def fail_all_def refused_client_tables
        Let_def)
  have xd: "RPC_ERR_DISCONNECTED \<noteq> RPC_ERR_INVALID_METHOD"
    by (simp add: RPC_ERR_DISCONNECTED_def RPC_ERR_INVALID_METHOD_def)
  have xe: "fst (call_begin connected_client 1 7 [41,0,0,0] 0) = Inl RPC_ERR_DISCONNECTED"
    "fst (snd (call_begin connected_client 1 7 [41,0,0,0] 0)) = waiting_client"
    by (simp_all add: call_begin_unsignalled waiting_client_def)
  show ?thesis using dropped xa xb xc xd xe by simp
qed

section \<open>Version mismatch in the handshake\<close>

lemma accept_mismatch:
  assumes "clientFd \<ge> 0" "msg_n msg > 0" "msg_fd msg = Some shm" "shm \<ge> 0"
    and "msg_version msg \<noteq> PROTOCOL_VERSION"
  shows "acceptLoop_iteration svc clientFd msg server_mmap =
           (svc, [Send clientFd [0], Close shm, Close clientFd])"
  using assms by (simp add: acceptLoop_iteration_def recvFdWithVersion_def Let_def)

lemma release_fields:
  "m_region (fst (release c)) = None"
  "m_running (fst (release c)) = m_running c"
  "m_shmFd c \<ge> 0 \<Longrightarrow> m_shmFd (fst (release c)) = - 1"
  "m_socketFd c \<ge> 0 \<Longrightarrow> m_socketFd (fst (release c)) = - 1"
  "m_pending (fst (release c)) = m_pending c"
  by (simp_all add: release_def)

lemma disconnect_fields:
  "m_region (fst (Client_disconnect c)) = None"
  "\<not> m_running (fst (Client_disconnect c))"
  "m_shmFd c \<ge> 0 \<Longrightarrow> m_shmFd (fst (Client_disconnect c)) = - 1"
  "m_socketFd c \<ge> 0 \<Longrightarrow> m_socketFd (fst (Client_disconnect c)) = - 1"
  by (simp_all add: Client_disconnect_def Let_def release_def receiverLoop_exit_def
      split: prod.splits)

lemma disconnect_idle_events:
  "\<not> m_running c \<Longrightarrow> m_region c \<noteq> None \<Longrightarrow> m_shmFd c \<ge> 0 \<Longrightarrow> m_socketFd c \<ge> 0 \<Longrightarrow>
   snd (Client_disconnect c) = [Munmap, Close (m_shmFd c), Close (m_socketFd c)]"
  by (simp add: Client_disconnect_def release_def)

lemma connect_nack:
  assumes s: "connect_attempts connectClientSocket 0 (nat maxAttempts) (m_socketFd c) = sock"
    and s0: "sock \<ge> 0" and m0: "createSharedMemory \<ge> 0" and mm: "mmap = Some mem"
    and sf: "sendFdWithVersion > 0" and nack: "fst recv > 0 \<and> snd recv = 0"
  shows "Client_connect c ver maxAttempts connectClientSocket createSharedMemory mmap
           sendFdWithVersion recv =
         (False,
          fst (Client_disconnect (c\<lparr>m_socketFd := sock, m_shmFd := createSharedMemory,
                 m_region := Some \<lparr>clientToServer = reset (clientToServer mem),
                                   serverToClient = reset (serverToClient mem)\<rparr>\<rparr>)),
          SendFd sock ver createSharedMemory #
          snd (Client_disconnect (c\<lparr>m_socketFd := sock, m_shmFd := createSharedMemory,
                 m_region := Some \<lparr>clientToServer = reset (clientToServer mem),
                                   serverToClient = reset (serverToClient mem)\<rparr>\<rparr>)))"
  using assms by (simp add: Client_connect_def Let_def split: prod.splits)

text \<open>
  C7: when the accepted socket delivers a message with a descriptor and a version other
  than \<open>PROTOCOL_VERSION\<close>, the accept iteration sends the single byte 0 on the accepted
  socket, closes the received shared-memory descriptor and then the accepted socket, and
  leaves the service, its connection list included, unchanged. A client that has
  connected, created and mapped its region and sent its version, and then receives the
  ACK byte 0, returns false from \<open>connect\<close> with its region unmapped, both descriptors
  closed and reset to -1, and not running.
\<close>

theorem C7_version_mismatch:
  "(clientFd \<ge> 0 \<and> msg_n msg > 0 \<and> msg_fd msg = Some shm \<and> shm \<ge> 0 \<and>
    msg_version msg \<noteq> PROTOCOL_VERSION \<longrightarrow>
      acceptLoop_iteration svc clientFd msg server_mmap =
        (svc, [Send clientFd [0], Close shm, Close clientFd])) \<and>
   (connect_attempts connectClientSocket 0 (nat maxAttempts) (m_socketFd c) = sock \<and>
    sock \<ge> 0 \<and> createSharedMemory \<ge> 0 \<and> mmap = Some mem \<and> sendFdWithVersion > 0 \<and>
    fst recv > 0 \<and> snd recv = 0 \<longrightarrow>
      (case Client_connect c ver maxAttempts connectClientSocket createSharedMemory mmap
              sendFdWithVersion recv of
         (ok, c', ev) \<Rightarrow>
           \<not> ok \<and> m_region c' = None \<and> m_shmFd c' = - 1 \<and> m_socketFd c' = - 1 \<and>
           \<not> m_running c' \<and>
           (\<not> m_running c \<longrightarrow>
              ev = [SendFd sock ver createSharedMemory, Munmap, Close createSharedMemory,
                    Close sock])))"
proof (intro conjI impI)
  assume "clientFd \<ge> 0 \<and> msg_n msg > 0 \<and> msg_fd msg = Some shm \<and> shm \<ge> 0 \<and>
    msg_version msg \<noteq> PROTOCOL_VERSION"
  then show "acceptLoop_iteration svc clientFd msg server_mmap =
        (svc, [Send clientFd [0], Close shm, Close clientFd])"
    by (simp add: accept_mismatch)
next
  assume a: "connect_attempts connectClientSocket 0 (nat maxAttempts) (m_socketFd c) = sock \<and>
    sock \<ge> 0 \<and> createSharedMemory \<ge> 0 \<and> mmap = Some mem \<and> sendFdWithVersion > 0 \<and>
    fst recv > 0 \<and> snd recv = 0"
  let ?c3 = "c\<lparr>m_socketFd := sock, m_shmFd := createSharedMemory,
                 m_region := Some \<lparr>clientToServer = reset (clientToServer mem),
                                   serverToClient = reset (serverToClient mem)\<rparr>\<rparr>"
  have e: "Client_connect c ver maxAttempts connectClientSocket createSharedMemory mmap
           sendFdWithVersion recv =
         (False, fst (Client_disconnect ?c3),
          SendFd sock ver createSharedMemory # snd (Client_disconnect ?c3))"
    using a by (intro connect_nack) simp_all
  have ev: "\<not> m_running c \<Longrightarrow>
     snd (Client_disconnect ?c3) = [Munmap, Close createSharedMemory, Close sock]"
    using a disconnect_idle_events [of ?c3] by simp
  show "case Client_connect c ver maxAttempts connectClientSocket createSharedMemory mmap
              sendFdWithVersion recv of
         (ok, c', ev) \<Rightarrow>
           \<not> ok \<and> m_region c' = None \<and> m_shmFd c' = - 1 \<and> m_socketFd c' = - 1 \<and>
           \<not> m_running c' \<and>
           (\<not> m_running c \<longrightarrow>
              ev = [SendFd sock ver createSharedMemory, Munmap, Close createSharedMemory,
                    Close sock])"
    unfolding e using a ev disconnect_fields [of ?c3] by simp
qed

theorem C7_version_mismatch_witness:
  "(5::int) \<ge> 0 \<and> msg_n \<lparr>msg_n = 2, msg_version = 2, msg_fd = Some 6\<rparr> > 0 \<and>
   (2::16 word) \<noteq> PROTOCOL_VERSION \<and>
   acceptLoop_iteration
      \<lparr>m_listenFd = 9, m_serving = True, m_connections = [], m_handler = None\<rparr> 5
      \<lparr>msg_n = 2, msg_version = 2, msg_fd = Some 6\<rparr> (Some zero_region) =
     (\<lparr>m_listenFd = 9, m_serving = True, m_connections = [], m_handler = None\<rparr>,
      [Send 5 [0], Close 6, Close 5]) \<and>
   connect_attempts (\<lambda>i. 3) 0 (nat 10) (m_socketFd Client_init) = 3 \<and>
   Client_connect Client_init 2 10 (\<lambda>i. 3) 4 (Some zero_region) 2 (1, 0) =
     (False, Client_init, [SendFd 3 2 4, Munmap, Close 4, Close 3])"
  using C7_version_mismatch [where clientFd = 5 and msg = "\<lparr>msg_n = 2, msg_version = 2, msg_fd = Some 6\<rparr>"
      and shm = 6 and server_mmap = "Some zero_region"
      and svc = "\<lparr>m_listenFd = 9, m_serving = True, m_connections = [], m_handler = None\<rparr>"
      and connectClientSocket = "\<lambda>i. 3" and maxAttempts = 10 and c = Client_init and sock = 3
      and createSharedMemory = 4 and mmap = "Some zero_region" and mem = zero_region
      and sendFdWithVersion = 2 and recv = "(1, 0)" and ver = 2]
  by (simp add: PROTOCOL_VERSION_def connect_attempts_first Client_init_def
      Client_connect_def Client_disconnect_def release_def Let_def)

section \<open>Service::notify\<close>

lemma notify_loop_accepted:
  assumes "\<forall>x\<in>set pre. accepts sendSignalByte header payload x"
  shows "notify_loop sendSignalByte header payload (pre @ rest) =
     (case notify_loop sendSignalByte header payload rest of
        (st, cs', ev) \<Rightarrow> (st, map (deliver header payload) pre @ cs', signals pre @ ev))"
  using assms
proof (induction pre)
  case Nil
  then show ?case by (simp add: signals_def)
next
  case (Cons c pre)
  then have IH: "notify_loop sendSignalByte header payload (pre @ rest) =
     (case notify_loop sendSignalByte header payload rest of
        (st, cs', ev) \<Rightarrow> (st, map (deliver header payload) pre @ cs', signals pre @ ev))"
    by simp
  from Cons.prems have c: "accepts sendSignalByte header payload c" by simp
  show ?case
  proof (cases "region c")
    case None
    then show ?thesis
      by (simp add: IH deliver_def signals_def split: prod.splits)
  next
    case (Some r)
    with c have w: "fst (write_frame (serverToClient r) header payload)"
      and s: "sendSignalByte (socketFd c) > 0"
      by (simp_all add: accepts_def)
    obtain rb where rb: "write_frame (serverToClient r) header payload = (True, rb)"
      using w by (cases "write_frame (serverToClient r) header payload") auto
    show ?thesis
      using s by (simp add: Some rb IH deliver_def signals_def Let_def split: prod.splits)
  qed
qed

lemma notify_loop_all:
  assumes "\<forall>x\<in>set cs. accepts sendSignalByte header payload x"
  shows "notify_loop sendSignalByte header payload cs =
           (RPC_SUCCESS, map (deliver header payload) cs, signals cs)"
  using notify_loop_accepted [OF assms, of "[]"] by simp

lemma notify_loop_rejected:
  assumes "region c = Some r" "\<not> accepts sendSignalByte header payload c"
  shows "notify_loop sendSignalByte header payload (c # post) =
     (if fst (write_frame (serverToClient r) header payload)
      then RPC_ERR_DISCONNECTED else RPC_ERR_RING_FULL,
      deliver header payload c # post,
      if fst (write_frame (serverToClient r) header payload)
      then [signal_event (socketFd c)] else [])"
proof (cases "write_frame (serverToClient r) header payload")
  case (Pair ok rb)
  then show ?thesis using assms
    by (cases ok) (simp_all add: accepts_def deliver_def Let_def)
qed

lemma notify_loop_success_iff:
  "fst (notify_loop sendSignalByte header payload cs) = RPC_SUCCESS \<longleftrightarrow>
   (\<forall>x\<in>set cs. accepts sendSignalByte header payload x)"
proof
  assume "\<forall>x\<in>set cs. accepts sendSignalByte header payload x"
  then show "fst (notify_loop sendSignalByte header payload cs) = RPC_SUCCESS"
    by (simp add: notify_loop_all)
next
  assume ok: "fst (notify_loop sendSignalByte header payload cs) = RPC_SUCCESS"
  show "\<forall>x\<in>set cs. accepts sendSignalByte header payload x"
  proof (rule ccontr)
    assume "\<not> (\<forall>x\<in>set cs. accepts sendSignalByte header payload x)"
    then obtain pre c post where sp: "cs = pre @ c # post"
      and pre: "\<forall>x\<in>set pre. accepts sendSignalByte header payload x"
      and c: "\<not> accepts sendSignalByte header payload c"
      using split_list_first_prop [of cs "\<lambda>x. \<not> accepts sendSignalByte header payload x"]
      by auto
    from c obtain r where r: "region c = Some r"
      by (cases "region c") (auto simp: accepts_def)
    have "fst (notify_loop sendSignalByte header payload cs) \<noteq> RPC_SUCCESS"
      unfolding sp notify_loop_accepted [OF pre] notify_loop_rejected [OF r c]
      by (simp add: RPC_SUCCESS_def RPC_ERR_DISCONNECTED_def RPC_ERR_RING_FULL_def)
    with ok show False by simp
  qed
qed

text \<open>
  C9: \<open>Service::notify\<close> goes through the connection list in order. If every connection
  before \<open>c\<close> takes the frame and the signal and \<open>c\<close> does not, the call returns at \<open>c\<close>:
  \<open>RPC_ERR_RING_FULL\<close> when the frame write on \<open>c\<close> failed, \<open>RPC_ERR_DISCONNECTED\<close> when
  the write succeeded and the signal send failed. The connections before \<open>c\<close> keep the
  frame that was written to them and their signal bytes stay sent, \<open>c\<close> keeps whatever the
  write left in its ring, and the connections after \<open>c\<close> are untouched. Every call that
  returns an error has such a first failing connection, so it has delivered the
  notification to a strict prefix of the list.
\<close>

theorem C9_notify_prefix:
  "((\<forall>x\<in>set pre. accepts sendSignalByte (notify_header sid notifyId payload) payload x) \<and>
    region c = Some r \<and>
    \<not> accepts sendSignalByte (notify_header sid notifyId payload) payload c \<and>
    m_connections svc = pre @ c # post \<longrightarrow>
      Service_notify sendSignalByte svc sid notifyId payload =
        (if fst (write_frame (serverToClient r) (notify_header sid notifyId payload) payload)
         then RPC_ERR_DISCONNECTED else RPC_ERR_RING_FULL,
         svc\<lparr>m_connections :=
               map (deliver (notify_header sid notifyId payload) payload) pre @
               deliver (notify_header sid notifyId payload) payload c # post\<rparr>,
         signals pre @
         (if fst (write_frame (serverToClient r) (notify_header sid notifyId payload) payload)
          then [signal_event (socketFd c)] else []))) \<and>
   (fst (Service_notify sendSignalByte svc sid notifyId payload) \<noteq> RPC_SUCCESS \<longrightarrow>
      (\<exists>pre c post. m_connections svc = pre @ c # post \<and>
         (\<forall>x\<in>set pre. accepts sendSignalByte (notify_header sid notifyId payload) payload x) \<and>
         \<not> accepts sendSignalByte (notify_header sid notifyId payload) payload c))"
proof (intro conjI impI)
  let ?h = "notify_header sid notifyId payload"
  assume a: "(\<forall>x\<in>set pre. accepts sendSignalByte ?h payload x) \<and> region c = Some r \<and>
    \<not> accepts sendSignalByte ?h payload c \<and> m_connections svc = pre @ c # post"
  then have pre: "\<forall>x\<in>set pre. accepts sendSignalByte ?h payload x"
    and r: "region c = Some r" and c: "\<not> accepts sendSignalByte ?h payload c"
    and sp: "m_connections svc = pre @ c # post" by simp_all
  show "Service_notify sendSignalByte svc sid notifyId payload =
        (if fst (write_frame (serverToClient r) ?h payload)
         then RPC_ERR_DISCONNECTED else RPC_ERR_RING_FULL,
         svc\<lparr>m_connections := map (deliver ?h payload) pre @ deliver ?h payload c # post\<rparr>,
         signals pre @
         (if fst (write_frame (serverToClient r) ?h payload)
          then [signal_event (socketFd c)] else []))"
    unfolding Service_notify_def Let_def sp notify_loop_accepted [OF pre]
      notify_loop_rejected [OF r c]
    by simp
next
  let ?h = "notify_header sid notifyId payload"
  assume "fst (Service_notify sendSignalByte svc sid notifyId payload) \<noteq> RPC_SUCCESS"
  then have "fst (notify_loop sendSignalByte ?h payload (m_connections svc)) \<noteq> RPC_SUCCESS"
    by (simp add: Service_notify_def Let_def split: prod.splits)
  then have "\<not> (\<forall>x\<in>set (m_connections svc). accepts sendSignalByte ?h payload x)"
    by (simp add: notify_loop_success_iff)
  then show "\<exists>pre c post. m_connections svc = pre @ c # post \<and>
         (\<forall>x\<in>set pre. accepts sendSignalByte ?h payload x) \<and>
         \<not> accepts sendSignalByte ?h payload c"
    using split_list_first_prop
      [of "m_connections svc" "\<lambda>x. \<not> accepts sendSignalByte ?h payload x"]
    by auto
qed

theorem C9_notify_prefix_witness:
  "accepts (\<lambda>fd. if fd = 5 then 1 else - 1) (notify_header 1 99 [123,0,0,0]) [123,0,0,0]
     \<lparr>socketFd = 5, shmFd = 6, region = Some zero_region\<rparr> \<and>
   \<not> accepts (\<lambda>fd. if fd = 5 then 1 else - 1) (notify_header 1 99 [123,0,0,0]) [123,0,0,0]
     \<lparr>socketFd = 7, shmFd = 8, region = Some zero_region\<rparr> \<and>
   (case Service_notify (\<lambda>fd. if fd = 5 then 1 else - 1)
           \<lparr>m_listenFd = 9, m_serving = True, m_connections = two_connections @ two_connections,
            m_handler = None\<rparr> 1 99 [123,0,0,0] of
      (st, svc', ev) \<Rightarrow>
        st = RPC_ERR_DISCONNECTED \<and> ev = [Send 5 [1], Send 7 [1]] \<and>
        map (\<lambda>c. head (serverToClient (the (region c)))) (m_connections svc') = [28, 28, 0, 0])"
  using C9_notify_prefix [where sendSignalByte = "\<lambda>fd. if fd = 5 then 1 else - 1" and sid = 1
      and notifyId = 99 and payload = "[123,0,0,0]"
      and pre = "[\<lparr>socketFd = 5, shmFd = 6, region = Some zero_region\<rparr>]"
      and c = "\<lparr>socketFd = 7, shmFd = 8, region = Some zero_region\<rparr>"
      and r = zero_region and post = two_connections
      and svc = "\<lparr>m_listenFd = 9, m_serving = True,
                  m_connections = two_connections @ two_connections, m_handler = None\<rparr>"]
  by (simp add: accepts_def deliver_def signals_def signal_event_def two_connections_def
      zero_region_def write_frame_notify initial_fields)

section \<open>Torn frames\<close>

text \<open>
  C1: the four producers write a frame with two ring writes and report failure when
  either fails. When the header fits and the payload does not, the failure is reported
  after head has moved. (1) On a fresh connection, \<open>call\<close> with a request of 262144 bytes
  returns \<open>RPC_ERR_RING_FULL\<close> and leaves head at 24; the consumer peeks a complete header
  that announces 262144 payload bytes of which none is committed. (2) After a \<open>notify\<close>
  that left 32 bytes free, \<open>call\<close> with a request of 16 bytes returns
  \<open>RPC_ERR_RING_FULL\<close> and has moved head from 262112 to 262136.
\<close>

theorem C1_torn_frame:
  "((case call_begin connected_client 1 7 (replicate 262144 0) 1 of
      (res, c1, ev1) \<Rightarrow>
        res = Inl RPC_ERR_RING_FULL \<and>
        m_region c1 = Some (zero_region\<lparr>clientToServer := torn_ring\<rparr>)) \<and>
    head torn_ring = 24 \<and> head torn_ring \<noteq> head (clientToServer zero_region) \<and>
    peek RING_BUFFER_SIZE torn_ring 24 =
      Some (encodeFrameHeader (request_header 1 1 7 (replicate 262144 0))) \<and>
    payloadBytes (request_header 1 1 7 (replicate 262144 0)) = 262144 \<and>
    readAvailable torn_ring = 24 \<and>
    take_frame torn_ring = None) \<and>
   (case Client_notify connected_client 1 9 (replicate 262088 0) 1 of
      (st1, c1, ev1) \<Rightarrow>
        st1 = RPC_SUCCESS \<and>
        head (clientToServer (the (m_region c1))) = 262112 \<and>
        writeAvailable RING_BUFFER_SIZE (clientToServer (the (m_region c1))) = 32 \<and>
        (case call_begin c1 1 7 (replicate 16 0) 1 of
           (res, c2, ev2) \<Rightarrow>
             res = Inl RPC_ERR_RING_FULL \<and>
             head (clientToServer (the (m_region c2))) = 262136 \<and>
             tail (clientToServer (the (m_region c2))) = 0 \<and>
             head (clientToServer (the (m_region c2))) \<noteq> head (clientToServer (the (m_region c1)))))"
proof (rule conjI)
  show "(case call_begin connected_client 1 7 (replicate 262144 0) 1 of
      (res, c1, ev1) \<Rightarrow>
        res = Inl RPC_ERR_RING_FULL \<and>
        m_region c1 = Some (zero_region\<lparr>clientToServer := torn_ring\<rparr>)) \<and>
    head torn_ring = 24 \<and> head torn_ring \<noteq> head (clientToServer zero_region) \<and>
    peek RING_BUFFER_SIZE torn_ring 24 =
      Some (encodeFrameHeader (request_header 1 1 7 (replicate 262144 0))) \<and>
    payloadBytes (request_header 1 1 7 (replicate 262144 0)) = 262144 \<and>
    readAvailable torn_ring = 24 \<and>
    take_frame torn_ring = None"
    by (simp add: call_begin_def connected_client_def zero_region_def torn_write torn_peek
        torn_readAvailable torn_take_frame Let_def initial_fields)
       (simp add: torn_ring_def request_header_def FrameHeader_zero_def)
  show "case Client_notify connected_client 1 9 (replicate 262088 0) 1 of
      (st1, c1, ev1) \<Rightarrow>
        st1 = RPC_SUCCESS \<and>
        head (clientToServer (the (m_region c1))) = 262112 \<and>
        writeAvailable RING_BUFFER_SIZE (clientToServer (the (m_region c1))) = 32 \<and>
        (case call_begin c1 1 7 (replicate 16 0) 1 of
           (res, c2, ev2) \<Rightarrow>
             res = Inl RPC_ERR_RING_FULL \<and>
             head (clientToServer (the (m_region c2))) = 262136 \<and>
             tail (clientToServer (the (m_region c2))) = 0 \<and>
             head (clientToServer (the (m_region c2))) \<noteq> head (clientToServer (the (m_region c1))))"
    by (simp add: Client_notify_def call_begin_def connected_client_def zero_region_def
        write_frame_def notify_header_def request_header_def FrameHeader_zero_def
        length_encodeFrameHeader
        write_rb_def initial_def RING_BUFFER_SIZE_def Let_def writeAvailable_def RPC_SUCCESS_def)
qed

section \<open>A call on an idle connection, end to end\<close>

text \<open>
  The steps composed over the shared region: on a connection whose rings are both empty,
  the client writes the request, the server's receiver takes it, runs the handler (or
  finds none) and writes the response, the client's receiver takes the response, and the
  caller returns the status the response carries.
\<close>

lemma idle_call_round_trip:
  assumes run: "m_running c" and reg: "m_region c = Some r"
    and ok1: "ring_ok RING_BUFFER_SIZE (clientToServer r)"
    and ok2: "ring_ok RING_BUFFER_SIZE (serverToClient r)"
    and e1: "head (clientToServer r) = tail (clientToServer r)"
    and e2: "head (serverToClient r) = tail (serverToClient r)"
    and fit1: "24 + length request \<le> 262144" and sig: "sig > 0"
    and br: "build_response handler (request_header (m_nextSeq c) sid mid request) request
               = (rh, rp)"
    and fit2: "24 + length rp \<le> 262144"
  shows "\<exists>c1 ev1 r2 c3.
     call_begin c sid mid request sig = (Inr (m_nextSeq c, length (heap c)), c1, ev1) \<and>
     m_region c1 \<noteq> None \<and>
     connectionLoop_step handler sock (the (m_region c1)) = Some (r2, [signal_event sock]) \<and>
     receiverLoop_step (c1\<lparr>m_region := Some r2\<rparr>) = Some (c3, []) \<and>
     fst (call_finish c3 (m_nextSeq c) (length (heap c)) resp) = aux rh \<and>
     fst (snd (call_finish c3 (m_nextSeq c) (length (heap c)) resp)) =
       (if aux rh = RPC_SUCCESS \<and> resp \<noteq> None then Some rp else resp) \<and>
     map_of (m_pending (snd (snd (call_finish c3 (m_nextSeq c) (length (heap c)) resp))))
       (m_nextSeq c) = None"
proof -
  let ?sq = "m_nextSeq c" and ?p = "length (heap c)"
  let ?qh = "request_header (m_nextSeq c) sid mid request"
  note t1 = frame_transport [OF ok1 e1 request_payloadBytes fit1, of "m_nextSeq c" sid mid]
  obtain rb1 where w1: "write_frame (clientToServer r) ?qh request = (True, rb1)"
    using t1(1) by (cases "write_frame (clientToServer r) ?qh request") auto
  have tf1: "take_frame rb1 = Some (?qh, request, rb1\<lparr>tail := head rb1\<rparr>)"
    using t1(4) by (simp add: w1)
  define c1 where "c1 = c\<lparr>m_nextSeq := m_nextSeq c + 1,
      m_region := Some (r\<lparr>clientToServer := rb1\<rparr>),
      heap := heap c @ [\<lparr>done_flag = False, status = RPC_SUCCESS, response = []\<rparr>],
      m_pending := AList.update ?sq ?p (m_pending c)\<rparr>"
  have cb: "call_begin c sid mid request sig =
              (Inr (?sq, ?p), c1, [signal_event (m_socketFd c)])"
    using run sig by (simp add: call_begin_def reg Let_def w1 c1_def)
  have rg1: "m_region c1 = Some (r\<lparr>clientToServer := rb1\<rparr>)" by (simp add: c1_def)
  \<comment> \<open>the server takes the request and answers\<close>
  have rhp: "rh = fst (build_response handler ?qh request)" "rp = snd (build_response handler ?qh request)"
    by (simp_all add: br)
  have pb2: "payloadBytes rh = of_nat (length rp)"
    unfolding rhp by (rule response_payloadBytes)
  note t2 = frame_transport [OF ok2 e2 pb2 fit2]
  obtain rb2 where w2: "write_frame (serverToClient r) rh rp = (True, rb2)"
    using t2(1) by (cases "write_frame (serverToClient r) rh rp") auto
  have tf2: "take_frame rb2 = Some (rh, rp, rb2\<lparr>tail := head rb2\<rparr>)"
    using t2(4) by (simp add: w2)
  define r2 where "r2 = r\<lparr>clientToServer := rb1\<lparr>tail := head rb1\<rparr>, serverToClient := rb2\<rparr>"
  have cs: "connectionLoop_step handler sock (r\<lparr>clientToServer := rb1\<rparr>) =
              Some (r2, [signal_event sock])"
    using request_flag [of "m_nextSeq c" sid mid request]
    by (simp add: connectionLoop_step_def tf1 Let_def br w2 r2_def)
  \<comment> \<open>the client's receiver takes the response\<close>
  have fl: "flags rh AND FRAME_RESPONSE \<noteq> 0"
    by (simp add: rhp build_response_fields response_flag)
  have sq: "seq rh = ?sq"
    by (simp add: rhp build_response_fields request_header_def FrameHeader_zero_def)
  define c2 where "c2 = c1\<lparr>m_region := Some (r2\<lparr>serverToClient := rb2\<lparr>tail := head rb2\<rparr>\<rparr>)\<rparr>"
  have m: "map_of (m_pending c2) (seq rh) = Some ?p"
    by (simp add: sq c2_def c1_def update_conv')
  have pl: "?p < length (heap c2)" by (simp add: c2_def c1_def)
  define c3 where "c3 = fst (receiver_dispatch c2 rh rp)"
  have rd: "receiver_dispatch c2 rh rp = (c3, [])"
    by (simp add: c3_def receiver_dispatch_response [OF fl m])
  have c2e: "c1\<lparr>m_region := Some (r\<lparr>clientToServer := rb1\<lparr>tail := head rb1\<rparr>,
                                     serverToClient := rb2\<lparr>tail := head rb2\<rparr>\<rparr>)\<rparr> = c2"
    by (simp add: c2_def r2_def)
  have rs: "receiverLoop_step (c1\<lparr>m_region := Some r2\<rparr>) = Some (c3, [])"
    by (simp add: receiverLoop_step_def r2_def tf2 c2e rd)
  note cf = call_after_response [OF fl m pl, of rp resp, folded c3_def, unfolded sq]
  have mp: "m_pending c3 = m_pending c2"
    by (simp add: c3_def receiver_dispatch_response [OF fl m])
  show ?thesis
    using cb rg1 cs rs cf by (simp add: delete_conv')
qed


end
